theory Spec2Isabelle
  imports Main
begin

text \<open>
  A shallow embedding of the upgrade pipeline: the helpers of \<^verbatim>\<open>utils/nuget_helper.py\<close>
  and \<^verbatim>\<open>utils/file_utils.py\<close>, the node functions and the orchestrator of
  \<^verbatim>\<open>langgraph_app.py\<close>, and the diff extractor of \<^verbatim>\<open>n.py\<close>.
\<close>

section \<open>Python strings and the regular expressions the pipeline uses\<close>

text \<open>
  A text is a \<open>string\<close>: a list of characters, each a code point below 256. On these
  code points \<open>is_space\<close> and \<open>lower\<close> are what Python computes. The bytes of a file
  are a \<open>string\<close> too.
\<close>

definition is_space :: "char \<Rightarrow> bool" where
  \<comment> \<open>the code points below 256 for which \<open>str.isspace\<close> holds: \<open>\s\<close> and \<open>strip()\<close> use
      this set, which has the ASCII white space, the separators \<open>0x1C\<close> to \<open>0x1F\<close>,
      \<open>U+0085\<close> and \<open>U+00A0\<close>\<close>
  "is_space c =
     (let n = of_char c :: nat
      in (9 \<le> n \<and> n \<le> 13) \<or> (28 \<le> n \<and> n \<le> 32) \<or> n = 133 \<or> n = 160)"

definition strip :: "string \<Rightarrow> string" where
  \<comment> \<open>\<open>s.strip()\<close>\<close>
  "strip s = rev (dropWhile is_space (rev (dropWhile is_space s)))"

fun rstrip_char :: "char \<Rightarrow> string \<Rightarrow> string" where
  \<comment> \<open>\<open>s.rstrip(c)\<close> for a one-character argument\<close>
  "rstrip_char c s = rev (dropWhile (\<lambda>x. x = c) (rev s))"

definition upper_latin1 :: string where
  \<comment> \<open>the upper-case letters between \<open>U+00C0\<close> and \<open>U+00DE\<close>\<close>
  "upper_latin1 =
     [CHR 0xC0, CHR 0xC1, CHR 0xC2, CHR 0xC3, CHR 0xC4, CHR 0xC5, CHR 0xC6, CHR 0xC7,
     CHR 0xC8, CHR 0xC9, CHR 0xCA, CHR 0xCB, CHR 0xCC, CHR 0xCD, CHR 0xCE, CHR 0xCF,
     CHR 0xD0, CHR 0xD1, CHR 0xD2, CHR 0xD3, CHR 0xD4, CHR 0xD5, CHR 0xD6, CHR 0xD8,
     CHR 0xD9, CHR 0xDA, CHR 0xDB, CHR 0xDC, CHR 0xDD, CHR 0xDE]"

definition lower_latin1 :: string where
  \<comment> \<open>their lower-case forms, between \<open>U+00E0\<close> and \<open>U+00FE\<close>\<close>
  "lower_latin1 =
     [CHR 0xE0, CHR 0xE1, CHR 0xE2, CHR 0xE3, CHR 0xE4, CHR 0xE5, CHR 0xE6, CHR 0xE7,
     CHR 0xE8, CHR 0xE9, CHR 0xEA, CHR 0xEB, CHR 0xEC, CHR 0xED, CHR 0xEE, CHR 0xEF,
     CHR 0xF0, CHR 0xF1, CHR 0xF2, CHR 0xF3, CHR 0xF4, CHR 0xF5, CHR 0xF6, CHR 0xF8,
     CHR 0xF9, CHR 0xFA, CHR 0xFB, CHR 0xFC, CHR 0xFD, CHR 0xFE]"

definition lower_char :: "char \<Rightarrow> char" where
  "lower_char c =
     (case map_of (zip (''ABCDEFGHIJKLMNOPQRSTUVWXYZ'' @ upper_latin1)
                       (''abcdefghijklmnopqrstuvwxyz'' @ lower_latin1)) c of
        None \<Rightarrow> c
      | Some l \<Rightarrow> l)"

definition lower :: "string \<Rightarrow> string" where
  \<comment> \<open>\<open>s.lower()\<close>\<close>
  "lower s = map lower_char s"

fun starts_with :: "string \<Rightarrow> string \<Rightarrow> bool" where
  \<comment> \<open>\<open>starts_with l s\<close>: the text \<open>s\<close> begins with \<open>l\<close>\<close>
  "starts_with [] s = True"
| "starts_with (a # l) [] = False"
| "starts_with (a # l) (b # s) = (a = b \<and> starts_with l s)"

definition endswith :: "string \<Rightarrow> string \<Rightarrow> bool" where
  \<comment> \<open>\<open>s.endswith(l)\<close>\<close>
  "endswith s l = starts_with (rev l) (rev s)"

fun contains :: "string \<Rightarrow> string \<Rightarrow> bool" where
  \<comment> \<open>\<open>l in s\<close> on strings\<close>
  "contains l [] = starts_with l []"
| "contains l (c # s) = (starts_with l (c # s) \<or> contains l s)"

fun universal_newlines :: "string \<Rightarrow> string" where
  \<comment> \<open>what reading in text mode does to line endings: \<open>\r\n\<close> and a lone \<open>\r\<close> become \<open>\n\<close>\<close>
  "universal_newlines [] = []"
| "universal_newlines (x # s) =
     (if x = CHR 0x0D
      then (case s of
              [] \<Rightarrow> [CHR 0x0A]
            | y # t \<Rightarrow> if y = CHR 0x0A then CHR 0x0A # universal_newlines t
                       else CHR 0x0A # universal_newlines s)
      else x # universal_newlines s)"

subsection \<open>A backtracking matcher for the flat patterns of the source\<close>

text \<open>
  Every regular expression in the source is a sequence of literals and quantified
  character classes, some of them capturing groups; there is no alternation and no
  nesting. \<open>Rep c n greedy capture\<close> is the class \<open>c\<close> repeated at least \<open>n\<close> times
  (\<open>n = 0\<close> for \<open>*\<close>, \<open>n = 1\<close> for \<open>+\<close>), greedy or lazy (\<open>*?\<close>), in a capturing group
  or not.
\<close>

datatype cclass =
    AnyChar \<comment> \<open>\<open>.\<close> under \<open>re.S\<close>\<close>
  | Dot \<comment> \<open>\<open>.\<close> without \<open>re.S\<close>: anything but a newline\<close>
  | Space \<comment> \<open>\<open>\s\<close>\<close>
  | NotChar char \<comment> \<open>\<open>[^c]\<close>\<close>

fun in_class :: "cclass \<Rightarrow> char \<Rightarrow> bool" where
  "in_class AnyChar x = True"
| "in_class Dot x = (x \<noteq> CHR 0x0A)"
| "in_class Space x = is_space x"
| "in_class (NotChar c) x = (x \<noteq> c)"

datatype atom = Lit string | Rep cclass nat bool bool

type_synonym pattern = "atom list"

text \<open>
  \<open>match_at p acc s\<close> matches \<open>p\<close> at the start of \<open>s\<close>, the way a backtracking engine
  does: a greedy repetition first tries to take one more character and gives it back
  when the rest of the pattern fails; a lazy one first tries the rest of the pattern and
  takes one more character when that fails. \<open>acc\<close> holds what the repetition at the
  head of the pattern has taken so far. The result is the captured groups, in order, and
  the text that follows the match.
\<close>

fun match_at :: "pattern \<Rightarrow> string \<Rightarrow> string \<Rightarrow> (string list \<times> string) option" where
  "match_at [] acc s = Some ([], s)"
| "match_at (Lit l # p) acc s =
     (if starts_with l s then match_at p [] (drop (length l) s) else None)"
| "match_at (Rep c (Suc n) g cap # p) acc [] = None"
| "match_at (Rep c (Suc n) g cap # p) acc (x # s) =
     (if in_class c x then match_at (Rep c n g cap # p) (acc @ [x]) s else None)"
| "match_at (Rep c 0 g cap # p) acc [] =
     (case match_at p [] [] of
        None \<Rightarrow> None
      | Some (gs, r) \<Rightarrow> Some (if cap then acc # gs else gs, r))"
| "match_at (Rep c 0 True cap # p) acc (x # s) =
     (case (if in_class c x then match_at (Rep c 0 True cap # p) (acc @ [x]) s else None) of
        Some m \<Rightarrow> Some m
      | None \<Rightarrow>
          (case match_at p [] (x # s) of
             None \<Rightarrow> None
           | Some (gs, r) \<Rightarrow> Some (if cap then acc # gs else gs, r)))"
| "match_at (Rep c 0 False cap # p) acc (x # s) =
     (case match_at p [] (x # s) of
        Some (gs, r) \<Rightarrow> Some (if cap then acc # gs else gs, r)
      | None \<Rightarrow>
          (if in_class c x then match_at (Rep c 0 False cap # p) (acc @ [x]) s else None))"

text \<open>
  \<open>search p s\<close> is \<open>re.search\<close>: the leftmost position where \<open>p\<close> matches, as the text
  before the match, the groups and the text after the match.
\<close>

fun search :: "pattern \<Rightarrow> string \<Rightarrow> (string \<times> string list \<times> string) option" where
  "search p [] = (case match_at p [] [] of None \<Rightarrow> None | Some (gs, r) \<Rightarrow> Some ([], gs, r))"
| "search p (c # s) =
     (case match_at p [] (c # s) of
        Some (gs, r) \<Rightarrow> Some ([], gs, r)
      | None \<Rightarrow> (case search p s of None \<Rightarrow> None | Some (pre, gs, r) \<Rightarrow> Some (c # pre, gs, r)))"

text \<open>
  \<open>scan p s\<close> lists the successive non-overlapping matches of \<open>p\<close> in \<open>s\<close>, each with
  the unmatched text before it, and the unmatched tail: what \<open>re.finditer\<close>, \<open>re.findall\<close>
  and \<open>re.sub\<close> iterate over. Every pattern of the source begins with a non-empty
  literal, so a match is never empty; the branch for an empty match (reported once,
  the scan then stops) is never taken for them.
\<close>

function scan :: "pattern \<Rightarrow> string \<Rightarrow> (string \<times> string list) list \<times> string" where
  "scan p s =
     (case search p s of
        None \<Rightarrow> ([], s)
      | Some (pre, gs, r) \<Rightarrow>
          (if length r < length s
           then (case scan p r of (ms, rest) \<Rightarrow> ((pre, gs) # ms, rest))
           else ([(pre, gs)], r)))"
  by pat_completeness auto
termination
  by (relation "measure (\<lambda>(p, s). length s)") auto

declare scan.simps [simp del]

definition finditer :: "pattern \<Rightarrow> string \<Rightarrow> string list list" where
  \<comment> \<open>the groups of each match of \<open>re.finditer\<close> / \<open>re.findall\<close>\<close>
  "finditer p s = map snd (fst (scan p s))"

definition re_sub_literal :: "pattern \<Rightarrow> string \<Rightarrow> string \<Rightarrow> string" where
  \<comment> \<open>\<open>re.sub(p, repl, s)\<close> for a replacement without backslashes, which is inserted as it is\<close>
  "re_sub_literal p repl s =
     (case scan p s of (ms, rest) \<Rightarrow> concat (map (\<lambda>(pre, gs). pre @ repl) ms) @ rest)"

section \<open>Exceptions, dictionaries and the outside world\<close>

text \<open>
  The exceptions a run can meet. All of them are instances of Python's \<open>Exception\<close>, so
  an \<open>except Exception\<close> clause catches each of them. A computation that can raise
  returns \<open>py_exn + 'a\<close>, with \<open>Inl\<close> for the exception.
\<close>

datatype py_exn =
    KeyError string
  | TypeError
  | AttributeError
  | OSError
  | ValueError
  | RequestException
  | APIError

text \<open>
  A Python \<open>dict\<close> is an association list with distinct keys in insertion order.
\<close>

type_synonym ('k, 'v) dict = "('k \<times> 'v) list"

fun dict_set :: "'k \<Rightarrow> 'v \<Rightarrow> ('k, 'v) dict \<Rightarrow> ('k, 'v) dict" where
  \<comment> \<open>\<open>d[k] = v\<close>\<close>
  "dict_set k v [] = [(k, v)]"
| "dict_set k v ((k', v') # d) = (if k' = k then (k, v) # d else (k', v') # dict_set k v d)"

definition dict_get :: "('k, 'v) dict \<Rightarrow> 'k \<Rightarrow> 'v option" where
  \<comment> \<open>\<open>d.get(k)\<close>\<close>
  "dict_get d k = map_of d k"

definition dict_get_default :: "('k, 'v) dict \<Rightarrow> 'k \<Rightarrow> 'v \<Rightarrow> 'v" where
  \<comment> \<open>\<open>d.get(k, dflt)\<close>\<close>
  "dict_get_default d k dflt = (case map_of d k of None \<Rightarrow> dflt | Some v \<Rightarrow> v)"

definition dict_setdefault :: "'k \<Rightarrow> 'v \<Rightarrow> ('k, 'v) dict \<Rightarrow> ('k, 'v) dict" where
  \<comment> \<open>\<open>d.setdefault(k, v)\<close>, for its effect on \<open>d\<close>\<close>
  "dict_setdefault k v d = (case map_of d k of None \<Rightarrow> d @ [(k, v)] | Some _ \<Rightarrow> d)"

text \<open>
  An HTTP response: its status code and what \<open>r.json()\<close> gives, either an exception
  (the body is not JSON) or a JSON object whose members are lists of version strings,
  the shape of a flat-container index.
\<close>

record response =
  status_code :: int
  json :: "py_exn + (string, string list) dict"

text \<open>What the completion service returns as \<open>message.content\<close>: a text or \<open>None\<close>.\<close>

datatype content = NoContent | Text string

record jwt_payload =
  sub :: string
  iat :: int
  exp :: int
  feed :: string

text \<open>
  The prompts of the two AI steps are fixed templates filled with values of the state;
  a prompt is modelled by the values it embeds.
\<close>

datatype prompt =
    AnalysisPrompt "string option" "string list" "(string, (string, string option) dict) dict" string
  | UpgradePrompt "string option" string

text \<open>
  The world counts the calls made to the outside so far and logs the HTTP requests; what
  the outside answers is a function of that count, so the same request can be answered
  differently at different times.
\<close>

record world =
  now :: nat
  requests :: "(string \<times> (string, string) dict) list"

text \<open>
  What a run needs from outside the program. A file is read as bytes; the codecs that
  turn bytes into text and text into bytes are part of the environment.
\<close>

record env =
  os_walk :: "string \<Rightarrow> (string \<times> string list) list"
    \<comment> \<open>\<open>os.walk(root)\<close>: each directory with its file names, in walk order\<close>
  relpath :: "string \<Rightarrow> string \<Rightarrow> string"
    \<comment> \<open>\<open>os.path.relpath\<close>\<close>
  read_bytes :: "string \<Rightarrow> py_exn + string"
    \<comment> \<open>opening a file and reading all its bytes\<close>
  decode_ignore :: "string \<Rightarrow> string"
    \<comment> \<open>decoding bytes as UTF-8 with \<open>errors="ignore"\<close>\<close>
  decode_strict :: "string \<Rightarrow> py_exn + string"
    \<comment> \<open>decoding bytes in the default encoding, which raises on bytes it cannot decode\<close>
  encode_utf8 :: "string \<Rightarrow> string"
    \<comment> \<open>the bytes \<open>writestr\<close> stores for a text\<close>
  open_archive :: "string \<Rightarrow> py_exn option"
    \<comment> \<open>\<open>zipfile.ZipFile(zpath, 'w', ...)\<close>: the exception it raises when the archive
        cannot be created at that path, if any\<close>
  gettempdir :: string
    \<comment> \<open>\<open>tempfile.gettempdir()\<close>\<close>
  str_hash :: "string \<Rightarrow> nat"
    \<comment> \<open>decides the iteration order of a \<open>set\<close> of strings\<close>
  requests_get :: "nat \<Rightarrow> string \<Rightarrow> (string, string) dict \<Rightarrow> py_exn + response"
    \<comment> \<open>\<open>requests.get(url, headers=..., timeout=6)\<close>; a timeout is an exception\<close>
  token_hex :: "nat \<Rightarrow> string"
    \<comment> \<open>\<open>secrets.token_hex(8)\<close>\<close>
  time_time :: "nat \<Rightarrow> int"
    \<comment> \<open>\<open>int(time.time())\<close>\<close>
  sha256_hex :: "string \<Rightarrow> string"
    \<comment> \<open>\<open>hashlib.sha256(s.encode()).hexdigest()\<close>\<close>
  jwt_encode :: "jwt_payload \<Rightarrow> string \<Rightarrow> string"
    \<comment> \<open>\<open>jwt.encode(payload, secret, algorithm="HS256")\<close>\<close>
  chat_completion :: "nat \<Rightarrow> prompt \<Rightarrow> nat \<Rightarrow> py_exn + content"
    \<comment> \<open>\<open>client.chat.completions.create(...)\<close>, then \<open>choices[0].message.content\<close>\<close>
  sub_with_escapes :: "pattern \<Rightarrow> string \<Rightarrow> string \<Rightarrow> py_exn + string"
    \<comment> \<open>\<open>re.sub\<close> for a replacement that holds a backslash, whose escapes \<open>re\<close> expands or rejects\<close>

definition tick :: "world \<Rightarrow> world" where
  "tick w = w\<lparr>now := Suc (now w)\<rparr>"

definition http_get :: "env \<Rightarrow> world \<Rightarrow> string \<Rightarrow> (string, string) dict \<Rightarrow> (py_exn + response) \<times> world" where
  "http_get e w url headers =
     (requests_get e (now w) url headers,
      w\<lparr>now := Suc (now w), requests := requests w @ [(url, headers)]\<rparr>)"

definition list_of_set :: "env \<Rightarrow> string list \<Rightarrow> string list" where
  \<comment> \<open>\<open>list(set(xs))\<close>: the distinct elements, in an order the hashing decides\<close>
  "list_of_set e xs = sort_key (str_hash e) (remdups xs)"

definition path_join :: "string \<Rightarrow> string \<Rightarrow> string" where
  \<comment> \<open>\<open>os.path.join(a, b)\<close> on POSIX\<close>
  "path_join a b =
     (if starts_with ''/'' b then b
      else if a = [] \<or> endswith a ''/'' then a @ b
      else a @ ''/'' @ b)"

fun traverse :: "('a \<Rightarrow> py_exn + 'b) \<Rightarrow> 'a list \<Rightarrow> py_exn + 'b list" where
  \<comment> \<open>a loop that applies \<open>f\<close> to each element and stops at the first exception\<close>
  "traverse f [] = Inr []"
| "traverse f (x # xs) =
     (case f x of
        Inl ex \<Rightarrow> Inl ex
      | Inr y \<Rightarrow> (case traverse f xs of Inl ex \<Rightarrow> Inl ex | Inr ys \<Rightarrow> Inr (y # ys)))"

section \<open>\<^verbatim>\<open>utils/nuget_helper.py\<close>\<close>

definition read_text :: "env \<Rightarrow> string \<Rightarrow> py_exn + string" where
  \<comment> \<open>\<open>open(path, "r", encoding="utf-8", errors="ignore")\<close>, then \<open>f.read()\<close>: text mode\<close>
  "read_text e path =
     (case read_bytes e path of
        Inl ex \<Rightarrow> Inl ex
      | Inr bytes \<Rightarrow> Inr (universal_newlines (decode_ignore e bytes)))"

definition collect_csproj_files :: "env \<Rightarrow> string \<Rightarrow> string list" where
  "collect_csproj_files e root_dir =
     concat (map (\<lambda>(r, files). map (path_join r) (filter (\<lambda>f. endswith f ''.csproj'') files))
                 (os_walk e root_dir))"

definition ADD_KEY :: pattern where
  \<comment> \<open>\<^verbatim>\<open><add key=".*?" value="(.*?)"\<close>\<close>
  "ADD_KEY = [Lit ''<add key=\"'', Rep Dot 0 False False, Lit ''\" value=\"'',
              Rep Dot 0 False True, Lit ''\"'']"

definition detect_private_feeds :: "env \<Rightarrow> string \<Rightarrow> py_exn + string list" where
  "detect_private_feeds e project_root =
     (case traverse (read_text e)
             (concat (map (\<lambda>(r, files). map (path_join r) (filter (\<lambda>f. lower f = ''nuget.config'') files))
                          (os_walk e project_root))) of
        Inl ex \<Rightarrow> Inl ex
      | Inr txts \<Rightarrow> Inr (list_of_set e (concat (map (\<lambda>txt. concat (finditer ADD_KEY txt)) txts))))"

definition generate_jwt_token_for_feed ::
  "env \<Rightarrow> world \<Rightarrow> string \<Rightarrow> string \<Rightarrow> int \<Rightarrow> string option \<Rightarrow> string \<times> world" where
  "generate_jwt_token_for_feed e w feed_url subject ttl_seconds secret =
     (let (secret', w1) =
            (case secret of
               Some sec \<Rightarrow> if sec \<noteq> [] then (sec, w)
                           else (sha256_hex e (feed_url @ token_hex e (now w)), tick w)
             | None \<Rightarrow> (sha256_hex e (feed_url @ token_hex e (now w)), tick w));
          t = time_time e (now w1);
          payload = \<lparr>sub = subject, iat = t, exp = t + ttl_seconds, feed = feed_url\<rparr>
      in (jwt_encode e payload secret', tick w1))"

definition latest_of :: "string list \<Rightarrow> string option" where
  \<comment> \<open>\<open>stable[-1] if stable else (versions[-1] if versions else None)\<close>\<close>
  "latest_of versions =
     (let stable = filter (\<lambda>v. \<not> contains ''-'' v) versions
      in if stable \<noteq> [] then Some (last stable)
         else if versions \<noteq> [] then Some (last versions) else None)"

text \<open>
  The body of each \<open>try\<close> block of the resolver: it raises (\<open>Inl\<close>), returns a value
  (\<open>Inr (Some v)\<close>, where \<open>v\<close> itself may be \<open>None\<close>) or ends without returning
  (\<open>Inr None\<close>, the status was not 200).
\<close>

definition lookup_body ::
  "env \<Rightarrow> world \<Rightarrow> string \<Rightarrow> (string, string) dict \<Rightarrow> (py_exn + string option option) \<times> world" where
  "lookup_body e w url headers =
     (case http_get e w url headers of
        (Inl ex, w') \<Rightarrow> (Inl ex, w')
      | (Inr r, w') \<Rightarrow>
          (if status_code r = 200
           then (case json r of
                   Inl ex \<Rightarrow> (Inl ex, w')
                 | Inr d \<Rightarrow> (Inr (Some (latest_of (dict_get_default d ''versions'' []))), w'))
           else (Inr None, w')))"

definition private_url :: "string \<Rightarrow> string \<Rightarrow> string" where
  "private_url feed_url package_name =
     rstrip_char CHR ''/'' feed_url @ ''/v3-flatcontainer/'' @ lower package_name @ ''/index.json''"

definition public_url :: "string \<Rightarrow> string" where
  "public_url package_name =
     ''https://api.nuget.org/v3-flatcontainer/'' @ lower package_name @ ''/index.json''"

definition public_lookup :: "env \<Rightarrow> world \<Rightarrow> string \<Rightarrow> (py_exn + string option) \<times> world" where
  \<comment> \<open>the second \<open>try\<close> block with its \<open>except Exception: pass\<close>, and the final \<open>return None\<close>\<close>
  "public_lookup e w package_name =
     (case lookup_body e w (public_url package_name) [] of
        (Inr (Some v), w') \<Rightarrow> (Inr v, w')
      | (Inr None, w') \<Rightarrow> (Inr None, w')
      | (Inl ex, w') \<Rightarrow> (Inr None, w'))"

definition auth_headers :: "string option \<Rightarrow> (string, string) dict" where
  \<comment> \<open>\<open>headers = {}\<close>, then \<open>if token: headers["Authorization"] = f"Bearer {token}"\<close>;
      the test holds for a token that is neither \<open>None\<close> nor empty\<close>
  "auth_headers token =
     (case token of
        None \<Rightarrow> []
      | Some t \<Rightarrow> if t \<noteq> [] then [(''Authorization'', ''Bearer '' @ t)] else [])"

definition get_latest_nuget_version_for_feed ::
  "env \<Rightarrow> world \<Rightarrow> string \<Rightarrow> string option \<Rightarrow> string option \<Rightarrow> (py_exn + string option) \<times> world" where
  \<comment> \<open>\<open>if feed_url\<close> holds for a URL that is neither \<open>None\<close> nor empty; the first \<open>try\<close>
      block returns, or its \<open>except Exception: pass\<close> and the end of the block lead to
      the public lookup\<close>
  "get_latest_nuget_version_for_feed e w package_name feed_url token =
     (let headers = auth_headers token
      in case feed_url of
           None \<Rightarrow> public_lookup e w package_name
         | Some f \<Rightarrow>
             (if f \<noteq> []
              then (case lookup_body e w (private_url f package_name) headers of
                      (Inr (Some v), w') \<Rightarrow> (Inr v, w')
                    | (Inr None, w') \<Rightarrow> public_lookup e w' package_name
                    | (Inl ex, w') \<Rightarrow> public_lookup e w' package_name)
              else public_lookup e w package_name))"

section \<open>\<^verbatim>\<open>langgraph_app.py\<close>: the state and the seven node functions\<close>

text \<open>
  \<open>UpgradeState\<close> is a \<open>TypedDict\<close> with \<open>total=False\<close>: each key may be absent, so each
  field is an option.
\<close>

record state =
  uploaded_file_path :: "string option"
  user_feed_url :: "string option"
  private_feeds :: "string list option"
  feed_tokens :: "(string, string) dict option"
  csproj_paths :: "string list option"
  package_report :: "(string, (string, string option) dict) dict option"
  analysis_report :: "content option"
  upgrade_preview :: "content option"
  csproj_updates :: "(string, string) dict option"
  target_version :: "string option"

type_synonym node = "world \<Rightarrow> state \<Rightarrow> (py_exn + state) \<times> world"

definition get_root :: "state \<Rightarrow> py_exn + string" where
  \<comment> \<open>\<open>state["uploaded_file_path"]\<close>\<close>
  "get_root s = (case uploaded_file_path s of
                   None \<Rightarrow> Inl (KeyError ''uploaded_file_path'')
                 | Some root \<Rightarrow> Inr root)"

definition upload_node :: "env \<Rightarrow> node" where
  "upload_node e w s =
     (case get_root s of
        Inl ex \<Rightarrow> (Inl ex, w)
      | Inr root \<Rightarrow> (Inr (s\<lparr>csproj_paths := Some (collect_csproj_files e root)\<rparr>), w))"

definition detect_feeds_node :: "env \<Rightarrow> node" where
  "detect_feeds_node e w s =
     (case get_root s of
        Inl ex \<Rightarrow> (Inl ex, w)
      | Inr root \<Rightarrow>
          (case (case user_feed_url s of
                   None \<Rightarrow> detect_private_feeds e root
                 | Some u \<Rightarrow> if u \<noteq> [] then Inr [u] else detect_private_feeds e root) of
             Inl ex \<Rightarrow> (Inl ex, w)
           | Inr feeds \<Rightarrow> (Inr (s\<lparr>private_feeds := Some feeds\<rparr>), w)))"

fun jwt_loop :: "env \<Rightarrow> world \<Rightarrow> (string, string) dict \<Rightarrow> string list \<Rightarrow> (string, string) dict \<times> world" where
  \<comment> \<open>the loop of \<open>generate_jwt_node\<close> over the feeds\<close>
  "jwt_loop e w tokens [] = (tokens, w)"
| "jwt_loop e w tokens (f # fs) =
     (case generate_jwt_token_for_feed e w f ''ai-upgrader'' 300 None of
        (jwt, w') \<Rightarrow> jwt_loop e w' (dict_set f jwt tokens) fs)"

definition generate_jwt_node :: "env \<Rightarrow> node" where
  "generate_jwt_node e w s =
     (case jwt_loop e w [] (case private_feeds s of None \<Rightarrow> [] | Some fs \<Rightarrow> fs) of
        (tokens, w') \<Rightarrow> (Inr (s\<lparr>feed_tokens := Some tokens\<rparr>), w'))"

definition PACKAGE_REFERENCE :: pattern where
  \<comment> \<open>\<^verbatim>\<open><PackageReference\s+Include="([^"]+)"\s+Version="([^"]+)"\<close>\<close>
  "PACKAGE_REFERENCE =
     [Lit ''<PackageReference'', Rep Space (Suc 0) True False, Lit ''Include=\"'',
      Rep (NotChar CHR 0x22) (Suc 0) True True, Lit ''\"'', Rep Space (Suc 0) True False,
      Lit ''Version=\"'', Rep (NotChar CHR 0x22) (Suc 0) True True, Lit ''\"'']"

fun pairs :: "string list \<Rightarrow> (string \<times> string) list" where
  \<comment> \<open>the groups of a match of a pattern with two groups, as \<open>re.findall\<close> returns them\<close>
  "pairs [a, b] = [(a, b)]"
| "pairs gs = []"

definition package_references :: "string \<Rightarrow> (string \<times> string) list" where
  \<comment> \<open>\<open>re.findall(PACKAGE_REFERENCE, text)\<close>\<close>
  "package_references txt = concat (map pairs (finditer PACKAGE_REFERENCE txt))"

type_synonym report = "(string, (string, string option) dict) dict"

definition first_feed :: "state \<Rightarrow> string option" where
  \<comment> \<open>\<open>(state.get("private_feeds") or [None])[0]\<close>\<close>
  "first_feed s = (case private_feeds s of
                     None \<Rightarrow> None
                   | Some [] \<Rightarrow> None
                   | Some (f # fs) \<Rightarrow> Some f)"

definition feed_token :: "state \<Rightarrow> string option \<Rightarrow> string option" where
  \<comment> \<open>\<open>state.get("feed_tokens", {}).get(feed)\<close>; no key of the dictionary is \<open>None\<close>\<close>
  "feed_token s fd =
     (case fd of
        None \<Rightarrow> None
      | Some f \<Rightarrow> dict_get (case feed_tokens s of None \<Rightarrow> [] | Some d \<Rightarrow> d) f)"

definition record_latest :: "string \<Rightarrow> string \<Rightarrow> string option \<Rightarrow> report \<Rightarrow> report" where
  \<comment> \<open>\<open>pkgs.setdefault(name, {"current": ver}); pkgs[name]["latest"] = latest\<close>\<close>
  "record_latest name ver latest pkgs =
     (let pkgs' = dict_setdefault name [(''current'', Some ver)] pkgs
      in map (\<lambda>(k, info). if k = name then (k, dict_set ''latest'' latest info) else (k, info)) pkgs')"

fun refs_loop ::
  "env \<Rightarrow> state \<Rightarrow> world \<Rightarrow> report \<Rightarrow> (string \<times> string) list \<Rightarrow> (py_exn + report) \<times> world" where
  \<comment> \<open>the inner loop of \<open>scan_packages_node\<close>, over the references of one file\<close>
  "refs_loop e s w pkgs [] = (Inr pkgs, w)"
| "refs_loop e s w pkgs ((name, ver) # rest) =
     (let fd = first_feed s; token = feed_token s fd
      in case get_latest_nuget_version_for_feed e w name fd token of
           (Inl ex, w') \<Rightarrow> (Inl ex, w')
         | (Inr latest, w') \<Rightarrow> refs_loop e s w' (record_latest name ver latest pkgs) rest)"

fun files_loop ::
  "env \<Rightarrow> state \<Rightarrow> world \<Rightarrow> report \<Rightarrow> string list \<Rightarrow> (py_exn + report) \<times> world" where
  \<comment> \<open>the outer loop of \<open>scan_packages_node\<close>, over the descriptor files\<close>
  "files_loop e s w pkgs [] = (Inr pkgs, w)"
| "files_loop e s w pkgs (p # ps) =
     (case read_text e p of
        Inl ex \<Rightarrow> (Inl ex, w)
      | Inr txt \<Rightarrow>
          (case refs_loop e s w pkgs (package_references txt) of
             (Inl ex, w') \<Rightarrow> (Inl ex, w')
           | (Inr pkgs', w') \<Rightarrow> files_loop e s w' pkgs' ps))"

definition scan_csprojs :: "env \<Rightarrow> state \<Rightarrow> string \<Rightarrow> string list" where
  \<comment> \<open>\<open>state.get("csproj_paths", []) or collect_csproj_files(root)\<close>\<close>
  "scan_csprojs e s root =
     (case csproj_paths s of
        None \<Rightarrow> collect_csproj_files e root
      | Some [] \<Rightarrow> collect_csproj_files e root
      | Some (p # ps) \<Rightarrow> p # ps)"

definition scan_packages_node :: "env \<Rightarrow> node" where
  "scan_packages_node e w s =
     (case get_root s of
        Inl ex \<Rightarrow> (Inl ex, w)
      | Inr root \<Rightarrow>
          (case files_loop e s w [] (scan_csprojs e s root) of
             (Inl ex, w') \<Rightarrow> (Inl ex, w')
           | (Inr pkgs, w') \<Rightarrow> (Inr (s\<lparr>package_report := Some pkgs\<rparr>), w')))"

fun csprojs_text :: "env \<Rightarrow> string \<Rightarrow> string \<Rightarrow> string list \<Rightarrow> py_exn + string" where
  \<comment> \<open>the loop both AI nodes build their context with, \<open>acc\<close> being \<open>csprojs_text\<close> so far\<close>
  "csprojs_text e root acc [] = Inr acc"
| "csprojs_text e root acc (p # ps) =
     (case read_text e p of
        Inl ex \<Rightarrow> Inl ex
      | Inr txt \<Rightarrow>
          csprojs_text e root (acc @ ''// FILE: '' @ relpath e p root @ [CHR 0x0A] @ txt @ [CHR 0x0A, CHR 0x0A]) ps)"

definition analyze_ai_node :: "env \<Rightarrow> node" where
  "analyze_ai_node e w s =
     (case get_root s of
        Inl ex \<Rightarrow> (Inl ex, w)
      | Inr root \<Rightarrow>
          (case csprojs_text e root [] (case csproj_paths s of None \<Rightarrow> [] | Some ps \<Rightarrow> ps) of
             Inl ex \<Rightarrow> (Inl ex, w)
           | Inr txt \<Rightarrow>
               (case chat_completion e (now w)
                       (AnalysisPrompt (target_version s)
                          (case private_feeds s of None \<Rightarrow> [] | Some fs \<Rightarrow> fs)
                          (case package_report s of None \<Rightarrow> [] | Some r \<Rightarrow> r) txt) 3000 of
                  Inl ex \<Rightarrow> (Inl ex, tick w)
                | Inr c \<Rightarrow> (Inr (s\<lparr>analysis_report := Some c\<rparr>), tick w))))"

definition FILE_BLOCK :: pattern where
  \<comment> \<open>\<^verbatim>\<open>--FILE:\s*(.*?)\s*--\n(.*?)--END FILE--\<close> with \<open>re.S\<close>\<close>
  "FILE_BLOCK =
     [Lit ''--FILE:'', Rep Space 0 True False, Rep AnyChar 0 False True, Rep Space 0 True False,
      Lit [CHR ''-'', CHR ''-'', CHR 0x0A], Rep AnyChar 0 False True, Lit ''--END FILE--'']"

fun block_entry :: "string list \<Rightarrow> (string \<times> string) list" where
  \<comment> \<open>\<open>m.group(1).strip()\<close> and \<open>m.group(2).strip()\<close> of one match\<close>
  "block_entry [g1, g2] = [(strip g1, strip g2)]"
| "block_entry gs = []"

definition parse_updates :: "string \<Rightarrow> (string, string) dict" where
  \<comment> \<open>the loop that fills \<open>csproj_updates\<close> from the matches of \<open>FILE_BLOCK\<close>\<close>
  "parse_updates preview =
     foldl (\<lambda>d (rel, xml). dict_set rel xml d) [] (concat (map block_entry (finditer FILE_BLOCK preview)))"

definition upgrade_ai_node :: "env \<Rightarrow> node" where
  "upgrade_ai_node e w s =
     (case get_root s of
        Inl ex \<Rightarrow> (Inl ex, w)
      | Inr root \<Rightarrow>
          (case csprojs_text e root [] (case csproj_paths s of None \<Rightarrow> [] | Some ps \<Rightarrow> ps) of
             Inl ex \<Rightarrow> (Inl ex, w)
           | Inr txt \<Rightarrow>
               (case chat_completion e (now w) (UpgradePrompt (target_version s) txt) 3500 of
                  Inl ex \<Rightarrow> (Inl ex, tick w)
                | Inr NoContent \<Rightarrow> (Inl TypeError, tick w)
                | Inr (Text preview) \<Rightarrow>
                    (Inr (s\<lparr>upgrade_preview := Some (Text preview),
                             csproj_updates := Some (parse_updates preview)\<rparr>), tick w))))"

definition final_node :: node where
  "final_node w s = (Inr s, w)"

section \<open>\<^verbatim>\<open>langgraph_app.py\<close>: the graph and the orchestrator\<close>

definition then_node :: "(py_exn + state) \<times> world \<Rightarrow> node \<Rightarrow> (py_exn + state) \<times> world" where
  \<comment> \<open>\<open>state = f(state)\<close> after what came before: an exception raised earlier skips \<open>f\<close>\<close>
  "then_node r f = (case r of (Inl ex, w) \<Rightarrow> (Inl ex, w) | (Inr s, w) \<Rightarrow> f w s)"

definition fallback :: "env \<Rightarrow> node" where
  \<comment> \<open>the \<open>except\<close> branch of \<open>run_graph_invoke\<close>, from \<open>state = initial_state.copy()\<close> on\<close>
  "fallback e w initial_state =
     then_node (then_node (then_node (then_node (then_node (then_node
       (upload_node e w initial_state)
       (detect_feeds_node e))
       (generate_jwt_node e))
       (scan_packages_node e))
       (analyze_ai_node e))
       (upgrade_ai_node e))
       final_node"

text \<open>
  \<open>graph_obj.invoke\<close> is a parameter of \<open>run_graph_invoke\<close>. A call gives the outcome,
  the dictionary \<open>initial_state\<close> as the call leaves it (the callee holds a reference to
  it), and the world after the call. Every exception of \<open>py_exn\<close> is caught by
  \<open>except Exception\<close>.
\<close>

type_synonym invoker = "world \<Rightarrow> state \<Rightarrow> (py_exn + state) \<times> state \<times> world"

definition run_graph_invoke :: "invoker \<Rightarrow> env \<Rightarrow> node" where
  "run_graph_invoke invoke e w initial_state =
     (case invoke w initial_state of
        (Inr result, initial_state', w') \<Rightarrow> (Inr result, w')
      | (Inl ex, initial_state', w') \<Rightarrow> fallback e w' initial_state')"

record graph =
  nodes :: "(string \<times> node) list"
  entry_point :: "string option"
  edges :: "(string \<times> string) list"

definition registered_graph :: "env \<Rightarrow> graph" where
  \<comment> \<open>what the \<open>add_node\<close>, \<open>set_entry_point\<close> and \<open>add_edge\<close> calls register\<close>
  "registered_graph e =
     \<lparr>nodes = [(''upload'', upload_node e), (''detect_feeds'', detect_feeds_node e),
               (''gen_jwt'', generate_jwt_node e), (''scan_pkgs'', scan_packages_node e),
               (''analyze_ai'', analyze_ai_node e), (''upgrade_ai'', upgrade_ai_node e),
               (''final'', final_node)],
      entry_point = Some ''upload'',
      edges = [(''upload'', ''detect_feeds''), (''detect_feeds'', ''gen_jwt''),
               (''gen_jwt'', ''scan_pkgs''), (''scan_pkgs'', ''analyze_ai''),
               (''analyze_ai'', ''upgrade_ai''), (''upgrade_ai'', ''final'')]\<rparr>"

fun topological_order :: "nat \<Rightarrow> string list \<Rightarrow> (string \<times> string) list \<Rightarrow> string list" where
  \<comment> \<open>Modelled from the spec: the graph executor of the \<open>langgraph\<close> library is not part of
      the repository; the spec has it run the nodes in topological order. The order takes,
      as long as it can, the first remaining node that no remaining node has an edge to.\<close>
  "topological_order 0 remaining es = []"
| "topological_order (Suc k) remaining es =
     (case filter (\<lambda>n. filter (\<lambda>(a, b). b = n \<and> a \<in> set remaining) es = []) remaining of
        [] \<Rightarrow> []
      | n # _ \<Rightarrow> n # topological_order k (remove1 n remaining) es)"

definition graph_invoke :: "graph \<Rightarrow> node" where
  \<comment> \<open>Modelled from the spec: the generic directed-graph executor runs the registered
      node functions in topological order, each on the state the one before returned, and
      an exception of a node ends the run.\<close>
  "graph_invoke g w s =
     foldl then_node (Inr s, w)
       (concat (map (\<lambda>n. case map_of (nodes g) n of None \<Rightarrow> [] | Some f \<Rightarrow> [f])
                    (topological_order (length (nodes g)) (map fst (nodes g)) (edges g))))"

section \<open>\<^verbatim>\<open>utils/file_utils.py\<close> and the diff extractor of \<^verbatim>\<open>n.py\<close>\<close>

definition TARGET_FRAMEWORK :: pattern where
  \<comment> \<open>\<^verbatim>\<open><TargetFramework>.*?</TargetFramework>\<close>\<close>
  "TARGET_FRAMEWORK = [Lit ''<TargetFramework>'', Rep Dot 0 False False, Lit ''</TargetFramework>'']"

definition re_sub :: "env \<Rightarrow> pattern \<Rightarrow> string \<Rightarrow> string \<Rightarrow> py_exn + string" where
  \<comment> \<open>\<open>re.sub(p, repl, s)\<close>\<close>
  "re_sub e p repl s =
     (if CHR 0x5C \<in> set repl then sub_with_escapes e p repl s
      else Inr (re_sub_literal p repl s))"

definition target_tag :: "string \<Rightarrow> string" where
  \<comment> \<open>\<open>f'<TargetFramework>{target}</TargetFramework>'\<close>\<close>
  "target_tag target = ''<TargetFramework>'' @ target @ ''</TargetFramework>''"

definition tree_files :: "env \<Rightarrow> string \<Rightarrow> (string \<times> string) list" where
  \<comment> \<open>\<open>for r, _, fs in os.walk(root): for f in fs\<close>: each file with its directory, in walk order\<close>
  "tree_files e root = concat (map (\<lambda>(r, fs). map (Pair r) fs) (os_walk e root))"

definition open_read :: "env \<Rightarrow> string \<Rightarrow> py_exn + string" where
  \<comment> \<open>\<open>open(src).read()\<close>: text mode, default encoding\<close>
  "open_read e src =
     (case read_bytes e src of
        Inl ex \<Rightarrow> Inl ex
      | Inr bytes \<Rightarrow>
          (case decode_strict e bytes of
             Inl ex \<Rightarrow> Inl ex
           | Inr text \<Rightarrow> Inr (universal_newlines text)))"

definition zip_entry ::
  "env \<Rightarrow> string \<Rightarrow> (string, string) dict \<Rightarrow> string \<Rightarrow> string \<Rightarrow> string \<Rightarrow> py_exn + string \<times> string" where
  \<comment> \<open>the body of the inner loop of \<open>create_upgraded_zip\<close>: the archive member written
      for the file \<open>f\<close> of the directory \<open>r\<close>, as its name and its bytes; \<open>writestr\<close>
      encodes the text it is given, \<open>z.write\<close> copies the bytes of the file\<close>
  "zip_entry e root updates target r f =
     (let src = path_join r f; rel = relpath e src root
      in case dict_get updates rel of
           Some new \<Rightarrow> Inr (rel, encode_utf8 e new)
         | None \<Rightarrow>
             (if endswith rel ''.csproj''
              then (case open_read e src of
                      Inl ex \<Rightarrow> Inl ex
                    | Inr orig \<Rightarrow>
                        (case re_sub e TARGET_FRAMEWORK (target_tag target) orig of
                           Inl ex \<Rightarrow> Inl ex
                         | Inr upd \<Rightarrow> Inr (rel, encode_utf8 e upd)))
              else (case read_bytes e src of
                      Inl ex \<Rightarrow> Inl ex
                    | Inr bytes \<Rightarrow> Inr (rel, bytes))))"

definition create_upgraded_zip ::
  "env \<Rightarrow> string \<Rightarrow> (string, string) dict \<Rightarrow> string \<Rightarrow> py_exn + string \<times> (string \<times> string) list" where
  \<comment> \<open>the path of the archive and its members, in the order they are written; the
      archive is created before the tree is walked\<close>
  "create_upgraded_zip e root updates target =
     (let zpath = path_join (gettempdir e) (''AI_Upgraded_'' @ target @ ''.zip'')
      in case open_archive e zpath of
           Some ex \<Rightarrow> Inl ex
         | None \<Rightarrow>
             (case traverse (\<lambda>(r, f). zip_entry e root updates target r f) (tree_files e root) of
                Inl ex \<Rightarrow> Inl ex
              | Inr members \<Rightarrow> Inr (zpath, members)))"

definition extract_diffs_from_markdown :: "string \<Rightarrow> (string \<times> string \<times> string) list" where
  \<comment> \<open>\<^verbatim>\<open>utils/file_utils.py\<close>: \<open>def extract_diffs_from_markdown(t): return []\<close>\<close>
  "extract_diffs_from_markdown t = []"

definition BEFORE_TAG :: pattern where
  \<comment> \<open>\<^verbatim>\<open><before>(.*?)</before>\<close> with \<open>re.S\<close>\<close>
  "BEFORE_TAG = [Lit ''<before>'', Rep AnyChar 0 False True, Lit ''</before>'']"

definition AFTER_TAG :: pattern where
  \<comment> \<open>\<^verbatim>\<open><after>(.*?)</after>\<close> with \<open>re.S\<close>\<close>
  "AFTER_TAG = [Lit ''<after>'', Rep AnyChar 0 False True, Lit ''</after>'']"

fun diff_of_block :: "string list \<Rightarrow> (string \<times> string \<times> string) list" where
  \<comment> \<open>the body of the loop of \<open>extract_diffs_from_markdown\<close> in \<^verbatim>\<open>n.py\<close>, for one match\<close>
  "diff_of_block [g1, g2] =
     (let fname = strip g1; xml = strip g2
      in case (search BEFORE_TAG xml, search AFTER_TAG xml) of
           (Some (_, [b], _), Some (_, [a], _)) \<Rightarrow> [(fname, strip b, strip a)]
         | _ \<Rightarrow> [])"
| "diff_of_block gs = []"

definition n_extract_diffs_from_markdown :: "string \<Rightarrow> (string \<times> string \<times> string) list" where
  \<comment> \<open>\<^verbatim>\<open>n.py\<close>: \<open>extract_diffs_from_markdown\<close>\<close>
  "n_extract_diffs_from_markdown markdown_text =
     concat (map diff_of_block (finditer FILE_BLOCK markdown_text))"

section \<open>The properties, in the words of the specification\<close>

text \<open>
  The version resolver as the specification describes it. A lookup succeeds when the
  request returns with status 200 and a JSON body, and then answers the list of versions
  of the body (the empty list when the body has none).
\<close>

definition answered_versions :: "env \<Rightarrow> nat \<Rightarrow> string \<Rightarrow> (string, string) dict \<Rightarrow> string list option" where
  "answered_versions e t url headers =
     (case requests_get e t url headers of
        Inl ex \<Rightarrow> None
      | Inr r \<Rightarrow>
          (if status_code r = 200
           then (case json r of
                   Inl ex \<Rightarrow> None
                 | Inr d \<Rightarrow> Some (case map_of d ''versions'' of None \<Rightarrow> [] | Some vs \<Rightarrow> vs))
           else None))"

definition prefer_stable :: "string list \<Rightarrow> string option" where
  \<comment> \<open>the last version without a pre-release separator; when there is none, the last
      version of the list; absent for the empty list\<close>
  "prefer_stable versions =
     (case rev (filter (\<lambda>v. CHR ''-'' \<notin> set v) versions) of
        v # _ \<Rightarrow> Some v
      | [] \<Rightarrow> (case rev versions of v # _ \<Rightarrow> Some v | [] \<Rightarrow> None))"

definition resolve_latest_spec ::
  "env \<Rightarrow> world \<Rightarrow> string \<Rightarrow> string option \<Rightarrow> string option \<Rightarrow> string option" where
  \<comment> \<open>the private feed is asked first when one is given, and its answer is the result;
      when it is not given or its lookup fails, the public registry is asked; when that
      fails too, the result is absent\<close>
  "resolve_latest_spec e w package_name feed_url token =
     (case feed_url of
        Some (c # f) \<Rightarrow>
          (case answered_versions e (now w) (private_url (c # f) package_name) (auth_headers token) of
             Some vs \<Rightarrow> prefer_stable vs
           | None \<Rightarrow>
               (case answered_versions e (Suc (now w)) (public_url package_name) [] of
                  Some vs \<Rightarrow> prefer_stable vs
                | None \<Rightarrow> None))
      | _ \<Rightarrow>
          (case answered_versions e (now w) (public_url package_name) [] of
             Some vs \<Rightarrow> prefer_stable vs
           | None \<Rightarrow> None))"

text \<open>
  The lookups the package scan performs, in scan order: the name and the pinned version
  of each reference, with what the resolver returned for it.
\<close>

fun refs_lookups ::
  "env \<Rightarrow> state \<Rightarrow> world \<Rightarrow> (string \<times> string) list \<Rightarrow> (string \<times> string \<times> string option) list" where
  "refs_lookups e s w [] = []"
| "refs_lookups e s w ((name, ver) # rest) =
     (case get_latest_nuget_version_for_feed e w name (first_feed s) (feed_token s (first_feed s)) of
        (Inl ex, w') \<Rightarrow> []
      | (Inr latest, w') \<Rightarrow> (name, ver, latest) # refs_lookups e s w' rest)"

fun files_lookups ::
  "env \<Rightarrow> state \<Rightarrow> world \<Rightarrow> string list \<Rightarrow> (string \<times> string \<times> string option) list" where
  "files_lookups e s w [] = []"
| "files_lookups e s w (p # ps) =
     (case read_text e p of
        Inl ex \<Rightarrow> []
      | Inr txt \<Rightarrow>
          refs_lookups e s w (package_references txt) @
          files_lookups e s (snd (refs_loop e s w [] (package_references txt))) ps)"

definition scan_lookups :: "env \<Rightarrow> world \<Rightarrow> state \<Rightarrow> (string \<times> string \<times> string option) list" where
  "scan_lookups e w s =
     (case get_root s of
        Inl ex \<Rightarrow> []
      | Inr root \<Rightarrow> files_lookups e s w (scan_csprojs e s root))"

definition record_all :: "report \<Rightarrow> (string \<times> string \<times> string option) list \<Rightarrow> report" where
  \<comment> \<open>the report after a sequence of lookups has been recorded in it\<close>
  "record_all pkgs ls = foldl (\<lambda>d (n, v, l). record_latest n v l d) pkgs ls"

text \<open>
  The wire format of the rewrite response. A block is the start marker, white space, a
  path, white space, two dashes and a newline, a body, and the end marker; the prompt
  asks for one blank on each side of the path and for a body that is the content and a
  newline. A response is made of blocks, each after some text, with a last text after
  them.
\<close>

definition file_block :: "string \<Rightarrow> string \<Rightarrow> string \<Rightarrow> string \<Rightarrow> string" where
  "file_block ws1 path ws2 body =
     ''--FILE:'' @ ws1 @ path @ ws2 @ ''--'' @ [CHR 0x0A] @ body @ ''--END FILE--''"

fun render_response :: "(string \<times> string \<times> string \<times> string \<times> string) list \<Rightarrow> string \<Rightarrow> string" where
  "render_response [] last_text = last_text"
| "render_response ((before, ws1, path, ws2, body) # blocks) last_text =
     before @ file_block ws1 path ws2 body @ render_response blocks last_text"

fun well_formed_block :: "string \<times> string \<times> string \<times> string \<times> string \<Rightarrow> bool" where
  \<comment> \<open>the text before the block holds no start marker; \<open>ws1\<close> and \<open>ws2\<close> are white space,
      \<open>ws2\<close> without a newline; the path is not empty, lies on one line and has no white
      space at its ends; the end marker that closes the block is the first one after
      the header\<close>
  "well_formed_block (before, ws1, path, ws2, body) =
     (\<not> contains ''--FILE:'' before \<and> list_all is_space ws1 \<and>
      list_all is_space ws2 \<and> CHR 0x0A \<notin> set ws2 \<and>
      path \<noteq> [] \<and> strip path = path \<and> CHR 0x0A \<notin> set path \<and>
      \<not> contains ''--END FILE--'' (body @ ''--END FILE-''))"

definition steps :: "env \<Rightarrow> node list" where
  \<comment> \<open>the seven steps, in the order of the sequential fallback\<close>
  "steps e = [upload_node e, detect_feeds_node e, generate_jwt_node e, scan_packages_node e,
              analyze_ai_node e, upgrade_ai_node e, final_node]"

definition relative_path_under_root :: "env \<Rightarrow> string \<Rightarrow> string \<Rightarrow> bool" where
  \<comment> \<open>\<open>k\<close> is the path, relative to \<open>root\<close>, of a file of the tree under \<open>root\<close>\<close>
  "relative_path_under_root e root k =
     (k \<in> set (map (\<lambda>(r, f). relpath e (path_join r f) root) (tree_files e root)))"

text \<open>
  The substitution of the repackager, told without a regular expression. The text is
  read from left to right; where it has \<^verbatim>\<open><TargetFramework>\<close> and, further on the same
  line, \<^verbatim>\<open></TargetFramework>\<close>, the text from the one to the first such other is replaced
  by the declaration of the target and the reading goes on behind it; every other
  character is kept.
\<close>

fun after_on_line :: "string \<Rightarrow> string \<Rightarrow> string option" where
  \<comment> \<open>what follows the first \<open>l\<close> in \<open>s\<close>, when \<open>l\<close> begins before the first newline of \<open>s\<close>\<close>
  "after_on_line l [] = (if starts_with l [] then Some [] else None)"
| "after_on_line l (c # s) =
     (if starts_with l (c # s) then Some (drop (length l) (c # s))
      else if c = CHR 0x0A then None
      else after_on_line l s)"

function retarget :: "string \<Rightarrow> string \<Rightarrow> string" where
  "retarget target [] = []"
| "retarget target (c # s) =
     (if starts_with ''<TargetFramework>'' (c # s)
      then (case after_on_line ''</TargetFramework>'' (drop (length ''<TargetFramework>'') (c # s)) of
              Some rest \<Rightarrow> ''<TargetFramework>'' @ target @ ''</TargetFramework>'' @ retarget target rest
            | None \<Rightarrow> c # retarget target s)
      else c # retarget target s)"
  by pat_completeness auto
termination
proof (relation "measure (\<lambda>(target, s). length s)")
  have shorter: "after_on_line l s = Some r \<Longrightarrow> length r \<le> length s" for l s r
    by (induction s) (auto split: if_splits)
  fix target :: string and c s rest
  assume "after_on_line ''</TargetFramework>'' (drop (length ''<TargetFramework>'') (c # s)) = Some rest"
  then have "length rest \<le> length (drop (length ''<TargetFramework>'') (c # s))"
    by (rule shorter)
  then show "((target, rest), (target, c # s)) \<in> measure (\<lambda>(target, s). length s)"
    by simp
qed simp_all

declare retarget.simps [simp del]

section \<open>An example project\<close>

text \<open>
  A project tree with one descriptor, a feed configuration and a text file, all of them
  ASCII (the codecs leave them as they are), and an outside world that answers every
  request. The descriptor references the same package twice, with different pinned
  versions.
\<close>

definition example_references :: string where
  "example_references =
     ''<PackageReference Include=\"Newtonsoft.Json\" Version=\"12.0.1\" />'' @
     ''<PackageReference Include=\"Newtonsoft.Json\" Version=\"13.0.1\" /></Project>''"

definition example_csproj :: string where
  "example_csproj = ''<Project>'' @ target_tag ''net6.0'' @ example_references"

definition example_config :: string where
  "example_config = ''<add key=\"corp\" value=\"https://feed.example/\" />''"

definition example_preview :: string where
  "example_preview = ''--FILE: ../other/App.csproj --'' @ [CHR 0x0A] @ ''X'' @ [CHR 0x0A] @ ''--END FILE--''"

definition example_relpath :: "string \<Rightarrow> string \<Rightarrow> string" where
  "example_relpath p root =
     (if starts_with (root @ ''/'') p then drop (Suc (length root)) p else p)"

definition example_env :: env where
  "example_env =
     \<lparr>os_walk = (\<lambda>root. if root = ''/proj''
                        then [(''/proj'', [''App.csproj'', ''NuGet.Config'', ''README.md''])] else []),
      relpath = example_relpath,
      read_bytes = (\<lambda>p. if p = ''/proj/App.csproj'' then Inr example_csproj
                        else if p = ''/proj/NuGet.Config'' then Inr example_config
                        else if p = ''/proj/README.md'' then Inr ''hello''
                        else Inl OSError),
      decode_ignore = (\<lambda>bytes. bytes),
      decode_strict = (\<lambda>bytes. Inr bytes),
      encode_utf8 = (\<lambda>text. text),
      open_archive = (\<lambda>zpath. None),
      gettempdir = ''/tmp'',
      str_hash = length,
      requests_get = (\<lambda>t url headers.
         if url = ''https://feed.example/v3-flatcontainer/newtonsoft.json/index.json''
         then Inr \<lparr>status_code = 200, json = Inr [(''versions'', [])]\<rparr>
         else if url = ''https://api.nuget.org/v3-flatcontainer/newtonsoft.json/index.json''
         then Inr \<lparr>status_code = 200,
                   json = Inr [(''versions'', if t = 0 then [''13.0.1'']
                                               else [''13.0.1'', ''13.0.3'', ''13.0.4-beta1''])]\<rparr>
         else Inr \<lparr>status_code = 404, json = Inl ValueError\<rparr>),
      token_hex = (\<lambda>t. ''00''),
      time_time = (\<lambda>t. int t),
      sha256_hex = (\<lambda>x. x),
      jwt_encode = (\<lambda>p secret. ''jwt'' @ secret),
      chat_completion = (\<lambda>t p m. case p of
                            AnalysisPrompt tv fs r txt \<Rightarrow> Inr (Text ''report'')
                          | UpgradePrompt tv txt \<Rightarrow> Inr (Text example_preview)),
      sub_with_escapes = (\<lambda>p repl txt. Inl ValueError)\<rparr>"

definition crlf_csproj :: string where
  \<comment> \<open>a descriptor of three lines that end with carriage return and line feed\<close>
  "crlf_csproj =
     ''<Project>'' @ [CHR 0x0D, CHR 0x0A] @
     ''<TargetFramework>net6.0</TargetFramework>'' @ [CHR 0x0D, CHR 0x0A] @
     ''</Project>'' @ [CHR 0x0D, CHR 0x0A]"

definition crlf_env :: env where
  \<comment> \<open>the same world, whose descriptor has these three lines\<close>
  "crlf_env =
     example_env\<lparr>read_bytes :=
       (\<lambda>p. if p = ''/proj/App.csproj'' then Inr crlf_csproj else read_bytes example_env p)\<rparr>"

definition split_csproj :: string where
  \<comment> \<open>a descriptor whose declaration is spread over three lines\<close>
  "split_csproj =
     ''<Project><TargetFramework>'' @ [CHR 0x0A] @ ''net6.0'' @ [CHR 0x0A] @
     ''</TargetFramework></Project>''"

definition split_env :: env where
  \<comment> \<open>the same world, whose descriptor has the declaration spread over three lines\<close>
  "split_env =
     example_env\<lparr>read_bytes :=
       (\<lambda>p. if p = ''/proj/App.csproj'' then Inr split_csproj else read_bytes example_env p)\<rparr>"

definition flat_tmp_env :: env where
  \<comment> \<open>the same world, whose temporary directory has no subdirectory: a file can be
      created in it, and nowhere below it\<close>
  "flat_tmp_env =
     example_env\<lparr>open_archive :=
       (\<lambda>zpath. if CHR ''/'' \<in> set (drop (length ''/tmp/'') zpath) then Some OSError else None)\<rparr>"

definition flaky_env :: env where
  \<comment> \<open>the same world, whose completion service fails the first time it is called\<close>
  "flaky_env =
     example_env\<lparr>chat_completion :=
       (\<lambda>t p m. if t = 0 then Inl APIError else chat_completion example_env t p m)\<rparr>"

definition failing_env :: env where
  \<comment> \<open>the same world, whose completion service fails every time\<close>
  "failing_env = example_env\<lparr>chat_completion := (\<lambda>t p m. Inl APIError)\<rparr>"

definition example_state :: "string \<Rightarrow> state" where
  \<comment> \<open>the initial state the form builds for a project root, without a feed of the user\<close>
  "example_state root =
     \<lparr>uploaded_file_path = Some root, user_feed_url = None, private_feeds = None,
      feed_tokens = None, csproj_paths = None, package_report = None, analysis_report = None,
      upgrade_preview = None, csproj_updates = None, target_version = Some ''net8.0''\<rparr>"

definition example_world :: world where
  "example_world = \<lparr>now = 0, requests = []\<rparr>"

definition executor :: "env \<Rightarrow> invoker" where
  \<comment> \<open>the graph executor as \<open>graph_obj.invoke\<close>; it leaves the dictionary it is given as it was\<close>
  "executor e w s = (case graph_invoke (registered_graph e) w s of (r, w') \<Rightarrow> (r, s, w'))"

section \<open>The two execution strategies\<close>

lemma then_node_Inr: "then_node (Inr s, w) f = f w s"
  by (simp add: then_node_def)

lemma then_node_Inl: "then_node (Inl ex, w) f = (Inl ex, w)"
  by (simp add: then_node_def)

text \<open>
  Claim C1. Delegating to the directed-graph executor, which runs the registered nodes
  in topological order, and running the seven node functions one after the other
  (upload, detect_feeds, gen_jwt, scan_pkgs, analyze_ai, upgrade_ai, final) give the same
  outcome from every initial state and every world: the same final state or the same
  exception, and the same world afterwards.
\<close>

theorem graph_invoke_eq_fallback:
  "graph_invoke (registered_graph e) w initial_state = fallback e w initial_state"
  by (simp add: graph_invoke_def registered_graph_def fallback_def then_node_Inr)

lemma foldl_then_node_Inl: "foldl then_node (Inl ex, w) fs = (Inl ex, w)"
  by (induction fs) (simp_all add: then_node_Inl)

lemma fallback_steps: "fallback e w s = foldl then_node (Inr s, w) (steps e)"
  by (simp add: fallback_def steps_def then_node_Inr)

text \<open>
  Claim C2, as stated, fails: \<open>run_graph_invoke\<close> calls the executor inside
  \<open>try ... except Exception\<close>, so an exception a step raises there is caught and the
  sequential fallback runs. Here the completion service fails the first time it is
  called: the analysis step raises inside the executor, and the run still returns a
  completed state.
\<close>

theorem run_returns_state_after_step_raised:
  "fst (executor flaky_env example_world (example_state ''/empty'')) = Inl APIError \<and>
   fst (run_graph_invoke (executor flaky_env) flaky_env example_world (example_state ''/empty'')) =
     Inr ((example_state ''/empty'')\<lparr>private_feeds := Some [], feed_tokens := Some [],
            csproj_paths := Some [], package_report := Some [],
            analysis_report := Some (Text ''report''),
            upgrade_preview := Some (Text example_preview),
            csproj_updates := Some [(''../other/App.csproj'', ''X'')]\<rparr>)"
  by code_simp

text \<open>
  Claim C2, amended. When the executor returns a state, the run returns that state.
  When the executor raises, the exception is caught and the seven steps run in order on
  a copy of the initial state: an exception raised by one of them is not caught, the run
  ends with it and returns no state (the steps before step \<open>k\<close> have returned and step
  \<open>k\<close> raises); and when all seven return, the run returns the state of the last.
\<close>

theorem run_graph_invoke_outcomes:
  "(invoke w initial_state = (Inr result, s0, w0) \<longrightarrow>
      run_graph_invoke invoke e w initial_state = (Inr result, w0)) \<and>
   (invoke w initial_state = (Inl ex0, s0, w0) \<and> k < length (steps e) \<and>
    foldl then_node (Inr s0, w0) (take k (steps e)) = (Inr sk, wk) \<and>
    (steps e ! k) wk sk = (Inl ex, wk') \<longrightarrow>
      run_graph_invoke invoke e w initial_state = (Inl ex, wk')) \<and>
   (invoke w initial_state = (Inl ex0, s0, w0) \<and>
    foldl then_node (Inr s0, w0) (steps e) = (Inr s', w') \<longrightarrow>
      run_graph_invoke invoke e w initial_state = (Inr s', w'))"
proof (intro conjI impI)
  assume "invoke w initial_state = (Inr result, s0, w0)"
  then show "run_graph_invoke invoke e w initial_state = (Inr result, w0)"
    by (simp add: run_graph_invoke_def)
next
  assume a: "invoke w initial_state = (Inl ex0, s0, w0) \<and> k < length (steps e) \<and>
    foldl then_node (Inr s0, w0) (take k (steps e)) = (Inr sk, wk) \<and>
    (steps e ! k) wk sk = (Inl ex, wk')"
  then have "steps e = take k (steps e) @ (steps e ! k) # drop (Suc k) (steps e)"
    by (intro id_take_nth_drop) simp
  moreover have "foldl then_node (Inr s0, w0) (take k (steps e) @ (steps e ! k) # drop (Suc k) (steps e)) =
      foldl then_node (then_node (Inr sk, wk) (steps e ! k)) (drop (Suc k) (steps e))"
    using a by (simp only: foldl_append foldl_Cons)
  ultimately have "foldl then_node (Inr s0, w0) (steps e) =
      foldl then_node (then_node (Inr sk, wk) (steps e ! k)) (drop (Suc k) (steps e))"
    by (rule ssubst)
  then have "fallback e w0 s0 = (Inl ex, wk')"
    using a by (simp add: fallback_steps then_node_Inr foldl_then_node_Inl)
  then show "run_graph_invoke invoke e w initial_state = (Inl ex, wk')"
    using a by (simp add: run_graph_invoke_def)
next
  assume a: "invoke w initial_state = (Inl ex0, s0, w0) \<and>
    foldl then_node (Inr s0, w0) (steps e) = (Inr s', w')"
  then have "fallback e w0 s0 = (Inr s', w')"
    by (simp add: fallback_steps)
  then show "run_graph_invoke invoke e w initial_state = (Inr s', w')"
    using a by (simp add: run_graph_invoke_def)
qed


text \<open>
  One run for each case: with a working completion service the executor returns and the
  run returns its state; with a service that always fails the executor raises and the
  fifth step of the fallback raises again; with a service that fails once the executor
  raises and the fallback completes.
\<close>

theorem run_graph_invoke_outcomes_witness:
  "executor example_env example_world (example_state ''/empty'') =
     (Inr ((example_state ''/empty'')\<lparr>private_feeds := Some [], feed_tokens := Some [],
          csproj_paths := Some [], package_report := Some [],
          analysis_report := Some (Text ''report''),
          upgrade_preview := Some (Text example_preview),
          csproj_updates := Some [(''../other/App.csproj'', ''X'')]\<rparr>), example_state ''/empty'', \<lparr>now = 2, requests = []\<rparr>) \<and>
   run_graph_invoke (executor example_env) example_env example_world (example_state ''/empty'') =
     (Inr ((example_state ''/empty'')\<lparr>private_feeds := Some [], feed_tokens := Some [],
          csproj_paths := Some [], package_report := Some [],
          analysis_report := Some (Text ''report''),
          upgrade_preview := Some (Text example_preview),
          csproj_updates := Some [(''../other/App.csproj'', ''X'')]\<rparr>), \<lparr>now = 2, requests = []\<rparr>) \<and>
   executor failing_env example_world (example_state ''/empty'') = (Inl APIError, example_state ''/empty'', \<lparr>now = 1, requests = []\<rparr>) \<and>
   4 < length (steps failing_env) \<and>
   foldl then_node (Inr (example_state ''/empty''), \<lparr>now = 1, requests = []\<rparr>) (take 4 (steps failing_env)) =
     (Inr ((example_state ''/empty'')\<lparr>private_feeds := Some [], feed_tokens := Some [],
          csproj_paths := Some [], package_report := Some []\<rparr>), \<lparr>now = 1, requests = []\<rparr>) \<and>
   (steps failing_env ! 4) \<lparr>now = 1, requests = []\<rparr> ((example_state ''/empty'')\<lparr>private_feeds := Some [], feed_tokens := Some [],
          csproj_paths := Some [], package_report := Some []\<rparr>) = (Inl APIError, \<lparr>now = 2, requests = []\<rparr>) \<and>
   run_graph_invoke (executor failing_env) failing_env example_world (example_state ''/empty'') =
     (Inl APIError, \<lparr>now = 2, requests = []\<rparr>) \<and>
   executor flaky_env example_world (example_state ''/empty'') = (Inl APIError, example_state ''/empty'', \<lparr>now = 1, requests = []\<rparr>) \<and>
   foldl then_node (Inr (example_state ''/empty''), \<lparr>now = 1, requests = []\<rparr>) (steps flaky_env) =
     (Inr ((example_state ''/empty'')\<lparr>private_feeds := Some [], feed_tokens := Some [],
          csproj_paths := Some [], package_report := Some [],
          analysis_report := Some (Text ''report''),
          upgrade_preview := Some (Text example_preview),
          csproj_updates := Some [(''../other/App.csproj'', ''X'')]\<rparr>), \<lparr>now = 3, requests = []\<rparr>) \<and>
   run_graph_invoke (executor flaky_env) flaky_env example_world (example_state ''/empty'') =
     (Inr ((example_state ''/empty'')\<lparr>private_feeds := Some [], feed_tokens := Some [],
          csproj_paths := Some [], package_report := Some [],
          analysis_report := Some (Text ''report''),
          upgrade_preview := Some (Text example_preview),
          csproj_updates := Some [(''../other/App.csproj'', ''X'')]\<rparr>), \<lparr>now = 3, requests = []\<rparr>)"
proof -
  have a1: "executor example_env example_world (example_state ''/empty'') =
     (Inr ((example_state ''/empty'')\<lparr>private_feeds := Some [], feed_tokens := Some [],
          csproj_paths := Some [], package_report := Some [],
          analysis_report := Some (Text ''report''),
          upgrade_preview := Some (Text example_preview),
          csproj_updates := Some [(''../other/App.csproj'', ''X'')]\<rparr>), example_state ''/empty'', \<lparr>now = 2, requests = []\<rparr>)"
    by code_simp
  have b1: "executor failing_env example_world (example_state ''/empty'') = (Inl APIError, example_state ''/empty'', \<lparr>now = 1, requests = []\<rparr>)"
    by code_simp
  have b2: "4 < length (steps failing_env)"
    by (simp add: steps_def)
  have b3: "foldl then_node (Inr (example_state ''/empty''), \<lparr>now = 1, requests = []\<rparr>) (take 4 (steps failing_env)) =
     (Inr ((example_state ''/empty'')\<lparr>private_feeds := Some [], feed_tokens := Some [],
          csproj_paths := Some [], package_report := Some []\<rparr>), \<lparr>now = 1, requests = []\<rparr>)"
    by code_simp
  have b4: "(steps failing_env ! 4) \<lparr>now = 1, requests = []\<rparr> ((example_state ''/empty'')\<lparr>private_feeds := Some [], feed_tokens := Some [],
          csproj_paths := Some [], package_report := Some []\<rparr>) = (Inl APIError, \<lparr>now = 2, requests = []\<rparr>)"
    by code_simp
  have c1: "executor flaky_env example_world (example_state ''/empty'') = (Inl APIError, example_state ''/empty'', \<lparr>now = 1, requests = []\<rparr>)"
    by code_simp
  have c2: "foldl then_node (Inr (example_state ''/empty''), \<lparr>now = 1, requests = []\<rparr>) (steps flaky_env) =
     (Inr ((example_state ''/empty'')\<lparr>private_feeds := Some [], feed_tokens := Some [],
          csproj_paths := Some [], package_report := Some [],
          analysis_report := Some (Text ''report''),
          upgrade_preview := Some (Text example_preview),
          csproj_updates := Some [(''../other/App.csproj'', ''X'')]\<rparr>), \<lparr>now = 3, requests = []\<rparr>)"
    by code_simp
  have a2: "run_graph_invoke (executor example_env) example_env example_world (example_state ''/empty'') =
     (Inr ((example_state ''/empty'')\<lparr>private_feeds := Some [], feed_tokens := Some [],
          csproj_paths := Some [], package_report := Some [],
          analysis_report := Some (Text ''report''),
          upgrade_preview := Some (Text example_preview),
          csproj_updates := Some [(''../other/App.csproj'', ''X'')]\<rparr>), \<lparr>now = 2, requests = []\<rparr>)"
    using run_graph_invoke_outcomes [where invoke = "executor example_env" and e = example_env
        and w = example_world and initial_state = "example_state ''/empty''",
        THEN conjunct1, THEN mp, OF a1] .
  have b5: "run_graph_invoke (executor failing_env) failing_env example_world (example_state ''/empty'') =
     (Inl APIError, \<lparr>now = 2, requests = []\<rparr>)"
    using run_graph_invoke_outcomes [where invoke = "executor failing_env" and e = failing_env
        and w = example_world and initial_state = "example_state ''/empty''" and k = 4,
        THEN conjunct2, THEN conjunct1, THEN mp, OF conjI [OF b1 conjI [OF b2 conjI [OF b3 b4]]]] .
  have c3: "run_graph_invoke (executor flaky_env) flaky_env example_world (example_state ''/empty'') =
     (Inr ((example_state ''/empty'')\<lparr>private_feeds := Some [], feed_tokens := Some [],
          csproj_paths := Some [], package_report := Some [],
          analysis_report := Some (Text ''report''),
          upgrade_preview := Some (Text example_preview),
          csproj_updates := Some [(''../other/App.csproj'', ''X'')]\<rparr>), \<lparr>now = 3, requests = []\<rparr>)"
    using run_graph_invoke_outcomes [where invoke = "executor flaky_env" and e = flaky_env
        and w = example_world and initial_state = "example_state ''/empty''",
        THEN conjunct2, THEN conjunct2, THEN mp, OF conjI [OF c1 c2]] .
  show ?thesis
    by (intro conjI a1 a2 b1 b2 b3 b4 b5 c1 c2 c3)
qed

section \<open>The diff extractor\<close>

text \<open>
  Claim C4. On a well-formed block with both tags the extractor of
  \<^verbatim>\<open>utils/file_utils.py\<close>, the one the graph application imports, returns nothing: its
  body is \<open>return []\<close>. The extractor of \<^verbatim>\<open>n.py\<close> returns the tuple the claim states.
\<close>

theorem extract_diffs_stub_drops_block:
  "extract_diffs_from_markdown
     (''--FILE: src/A.csproj --'' @ [CHR 0x0A] @ ''<before>OLD</before>'' @ [CHR 0x0A] @
      ''<after>NEW</after>'' @ [CHR 0x0A] @ ''--END FILE--'') = [] \<and>
   n_extract_diffs_from_markdown
     (''--FILE: src/A.csproj --'' @ [CHR 0x0A] @ ''<before>OLD</before>'' @ [CHR 0x0A] @
      ''<after>NEW</after>'' @ [CHR 0x0A] @ ''--END FILE--'') =
     [(''src/A.csproj'', ''OLD'', ''NEW'')]"
  by code_simp

section \<open>Feed detection\<close>

lemma example_config_feeds:
  "detect_private_feeds example_env ''/proj'' = Inr [''https://feed.example/'']"
  by code_simp

text \<open>
  Claim C8. In a state that holds the project root and a non-empty \<open>user_feed_url\<close>, the
  feed-detection step sets \<open>private_feeds\<close> to the one-element list of that URL, whatever
  feed-configuration files the tree holds: nothing of the tree is read, and nothing is
  merged.
\<close>

theorem detect_feeds_user_override:
  assumes "uploaded_file_path s = Some root" and "user_feed_url s = Some u" and "u \<noteq> []"
  shows "detect_feeds_node e w s = (Inr (s\<lparr>private_feeds := Some [u]\<rparr>), w)"
  using assms by (simp add: detect_feeds_node_def get_root_def)

text \<open>
  The example tree has a configuration file that declares a feed; with a feed of the
  user in the state, the step keeps the user's feed only.
\<close>

theorem detect_feeds_user_override_witness:
  "uploaded_file_path ((example_state ''/proj'')\<lparr>user_feed_url := Some ''https://my.feed/''\<rparr>) = Some ''/proj'' \<and>
   user_feed_url ((example_state ''/proj'')\<lparr>user_feed_url := Some ''https://my.feed/''\<rparr>) = Some ''https://my.feed/'' \<and>
   ''https://my.feed/'' \<noteq> [] \<and>
   detect_private_feeds example_env ''/proj'' = Inr [''https://feed.example/''] \<and>
   detect_feeds_node example_env example_world
       ((example_state ''/proj'')\<lparr>user_feed_url := Some ''https://my.feed/''\<rparr>) =
     (Inr ((example_state ''/proj'')\<lparr>user_feed_url := Some ''https://my.feed/'',
                                        private_feeds := Some [''https://my.feed/'']\<rparr>),
      example_world)"
  using detect_feeds_user_override [of "(example_state ''/proj'')\<lparr>user_feed_url := Some ''https://my.feed/''\<rparr>"
      "''/proj''" "''https://my.feed/''" example_env example_world]
  by (simp add: example_state_def example_config_feeds)

section \<open>The version resolver\<close>

lemma example_private_url:
  "private_url ''https://feed.example/'' ''Newtonsoft.Json'' =
     ''https://feed.example/v3-flatcontainer/newtonsoft.json/index.json''"
  by code_simp

lemma contains_dash: "contains ''-'' v = (CHR ''-'' \<in> set v)"
  by (induction v) auto

lemma latest_of_prefer_stable: "latest_of vs = prefer_stable vs"
proof -
  have last_rev: "\<And>xs :: string list. xs \<noteq> [] \<Longrightarrow> rev xs = last xs # rev (butlast xs)"
    by (metis append_butlast_last_id rev.simps(2) rev_append append_Nil rev.simps(1) append_Cons)
  show ?thesis
  proof (cases "filter (\<lambda>v. CHR ''-'' \<notin> set v) vs = []")
    case True
    then show ?thesis
      by (cases "vs = []") (simp_all add: latest_of_def prefer_stable_def contains_dash last_rev)
  next
    case False
    then show ?thesis
      by (simp add: latest_of_def prefer_stable_def contains_dash last_rev)
  qed
qed

lemma public_lookup_spec:
  "fst (public_lookup e w name) =
     Inr (case answered_versions e (now w) (public_url name) [] of
            Some vs \<Rightarrow> prefer_stable vs
          | None \<Rightarrow> None)"
  by (simp add: public_lookup_def lookup_body_def http_get_def answered_versions_def
      dict_get_default_def latest_of_prefer_stable split: sum.splits option.splits)

text \<open>
  Claim C5. For every package name, feed URL and token the resolver returns a value and
  never raises, and the value is what the specification describes: the answer of the
  private feed when one is given and its lookup succeeds, else the answer of the public
  registry, else absent; an answer being the last version without a pre-release
  separator, or the last version when none is stable. For the versions
  \<open>1.0.0, 1.1.0-beta, 1.2.0\<close> that is \<open>1.2.0\<close>, and for \<open>2.0.0-rc1\<close> alone it is
  \<open>2.0.0-rc1\<close>.
\<close>

theorem resolve_latest_refines_spec:
  "fst (get_latest_nuget_version_for_feed e w package_name feed_url token) =
     Inr (resolve_latest_spec e w package_name feed_url token) \<and>
   latest_of [''1.0.0'', ''1.1.0-beta'', ''1.2.0''] = Some ''1.2.0'' \<and>
   latest_of [''2.0.0-rc1''] = Some ''2.0.0-rc1''"
proof -
  have "fst (get_latest_nuget_version_for_feed e w package_name feed_url token) =
     Inr (resolve_latest_spec e w package_name feed_url token)"
  proof (cases feed_url)
    case None
    then show ?thesis
      by (simp add: get_latest_nuget_version_for_feed_def resolve_latest_spec_def public_lookup_spec)
  next
    case (Some f)
    show ?thesis
    proof (cases f)
      case Nil
      with Some show ?thesis
        by (simp add: get_latest_nuget_version_for_feed_def resolve_latest_spec_def public_lookup_spec)
    next
      case (Cons c f')
      with Some show ?thesis
        by (simp add: get_latest_nuget_version_for_feed_def resolve_latest_spec_def public_lookup_spec
            lookup_body_def http_get_def answered_versions_def dict_get_default_def
            latest_of_prefer_stable split: sum.splits option.splits)
    qed
  qed
  moreover have "latest_of [''1.0.0'', ''1.1.0-beta'', ''1.2.0''] = Some ''1.2.0''"
    by (simp add: latest_of_def)
  moreover have "latest_of [''2.0.0-rc1''] = Some ''2.0.0-rc1''"
    by (simp add: latest_of_def)
  ultimately show ?thesis by simp
qed

text \<open>
  Claim C9. When a non-empty feed URL is given and the private feed answers with status
  200 and an empty list of versions (or none), the resolver returns absent from the
  private-feed branch: the request to the private feed is the only one it makes, the
  public registry is not asked.
\<close>

theorem private_feed_empty_versions:
  assumes "feed_url \<noteq> []"
    and "requests_get e (now w) (private_url feed_url package_name) (auth_headers token) = Inr r"
    and "status_code r = 200"
    and "json r = Inr d"
    and "dict_get_default d ''versions'' [] = []"
  shows "get_latest_nuget_version_for_feed e w package_name (Some feed_url) token =
           (Inr None,
            w\<lparr>now := Suc (now w),
              requests := requests w @ [(private_url feed_url package_name, auth_headers token)]\<rparr>)"
  using assms
  by (simp add: get_latest_nuget_version_for_feed_def lookup_body_def http_get_def latest_of_def)

theorem private_feed_empty_versions_witness:
  "''https://feed.example/'' \<noteq> [] \<and>
   requests_get example_env (now example_world)
       (private_url ''https://feed.example/'' ''Newtonsoft.Json'') (auth_headers (Some ''tok'')) =
     Inr \<lparr>status_code = 200, json = Inr [(''versions'', [])]\<rparr> \<and>
   get_latest_nuget_version_for_feed example_env example_world ''Newtonsoft.Json''
       (Some ''https://feed.example/'') (Some ''tok'') =
     (Inr None,
      \<lparr>now = 1,
       requests = [(''https://feed.example/v3-flatcontainer/newtonsoft.json/index.json'',
                    [(''Authorization'', ''Bearer tok'')])]\<rparr>)"
  using private_feed_empty_versions [of "''https://feed.example/''" example_env example_world
      "''Newtonsoft.Json''" "Some ''tok''" "\<lparr>status_code = 200, json = Inr [(''versions'', [])]\<rparr>"
      "[(''versions'', [])]"]
  by (simp add: example_private_url example_env_def example_world_def auth_headers_def
      dict_get_default_def)

section \<open>The package scan\<close>

lemma public_lookup_Inr: "\<exists>v w'. public_lookup e w name = (Inr v, w')"
  by (simp add: public_lookup_def split: prod.splits sum.splits option.splits)

lemma get_latest_Inr:
  "\<exists>v w'. get_latest_nuget_version_for_feed e w name fd token = (Inr v, w')"
  using public_lookup_Inr
  by (auto simp add: get_latest_nuget_version_for_feed_def split: prod.splits sum.splits option.splits)

lemma refs_loop_world: "snd (refs_loop e s w pkgs refs) = snd (refs_loop e s w [] refs)"
proof (induction refs arbitrary: w pkgs)
  case Nil
  then show ?case by simp
next
  case (Cons r refs)
  obtain name ver where r: "r = (name, ver)" by (cases r)
  obtain v w' where g: "get_latest_nuget_version_for_feed e w name (first_feed s) (feed_token s (first_feed s)) = (Inr v, w')"
    using get_latest_Inr by blast
  show ?case
    using Cons.IH [of w' "record_latest name ver v pkgs"] Cons.IH [of w' "record_latest name ver v []"]
    by (simp add: r g)
qed

lemma refs_loop_record_all:
  "refs_loop e s w pkgs refs = (Inr (record_all pkgs (refs_lookups e s w refs)), snd (refs_loop e s w [] refs))"
proof (induction refs arbitrary: w pkgs)
  case Nil
  then show ?case by (simp add: record_all_def)
next
  case (Cons r refs)
  obtain name ver where r: "r = (name, ver)" by (cases r)
  obtain v w' where g: "get_latest_nuget_version_for_feed e w name (first_feed s) (feed_token s (first_feed s)) = (Inr v, w')"
    using get_latest_Inr by blast
  show ?case
    using Cons.IH [of w' "record_latest name ver v pkgs"] refs_loop_world [of e s w' "record_latest name ver v []" refs]
    by (simp add: r g record_all_def)
qed

lemma record_all_append: "record_all pkgs (xs @ ys) = record_all (record_all pkgs xs) ys"
  by (simp add: record_all_def)

lemma files_loop_record_all:
  "files_loop e s w pkgs ps = (Inr pkgs', w') \<Longrightarrow> pkgs' = record_all pkgs (files_lookups e s w ps)"
proof (induction ps arbitrary: w pkgs)
  case Nil
  then show ?case by (simp add: record_all_def)
next
  case (Cons p ps)
  then obtain body where t: "read_text e p = Inr body"
    by (cases "read_text e p") auto
  have rl: "refs_loop e s w pkgs (package_references body) =
      (Inr (record_all pkgs (refs_lookups e s w (package_references body))),
       snd (refs_loop e s w [] (package_references body)))"
    by (rule refs_loop_record_all)
  from Cons.prems have "files_loop e s (snd (refs_loop e s w [] (package_references body)))
      (record_all pkgs (refs_lookups e s w (package_references body))) ps = (Inr pkgs', w')"
    by (simp add: t rl)
  from Cons.IH [OF this] show ?case
    by (simp add: t record_all_append)
qed


lemma map_of_map_keyed:
  "map_of (map (\<lambda>(k, v). (k, f k v)) xs) k = map_option (f k) (map_of xs k)"
  by (induction xs) auto

lemma record_latest_alt:
  "record_latest n v l pkgs =
     map (\<lambda>(k, info). (k, if k = n then dict_set ''latest'' l info else info))
       (dict_setdefault n [(''current'', Some v)] pkgs)"
  by (simp add: record_latest_def Let_def case_prod_beta)

lemma map_fst_keyed: "map fst (map (\<lambda>(k, v). (k, f k v)) xs) = map fst xs"
  by (induction xs) auto

lemma in_keys_iff: "k \<in> fst ` set xs \<longleftrightarrow> map_of xs k \<noteq> None"
  by (simp add: map_of_eq_None_iff)

lemma record_latest_keys:
  "map fst (record_latest n v l pkgs) =
     (if n \<in> set (map fst pkgs) then map fst pkgs else map fst pkgs @ [n])"
proof -
  have "map fst (record_latest n v l pkgs) = map fst (dict_setdefault n [(''current'', Some v)] pkgs)"
    by (simp only: record_latest_alt map_fst_keyed)
  then show ?thesis
    by (cases "map_of pkgs n") (simp_all add: dict_setdefault_def in_keys_iff)
qed

lemma record_latest_map_of:
  "map_of (record_latest n v l pkgs) k =
     (if k = n
      then Some (dict_set ''latest'' l (case map_of pkgs n of None \<Rightarrow> [(''current'', Some v)] | Some info \<Rightarrow> info))
      else map_of pkgs k)"
  by (cases "map_of pkgs n")
     (simp_all add: record_latest_alt map_of_map_keyed dict_setdefault_def map_add_def
        option.map_ident split: option.splits)

lemma record_all_snoc: "record_all pkgs (ls @ [(n, v, l)]) = record_latest n v l (record_all pkgs ls)"
  by (simp add: record_all_def)

lemma find_snoc:
  "find P (xs @ [x]) = (case find P xs of Some y \<Rightarrow> Some y | None \<Rightarrow> if P x then Some x else None)"
  by (induction xs) auto

lemma record_all_invariant:
  "distinct (map fst (record_all [] ls)) \<and>
   set (map fst (record_all [] ls)) = fst ` set ls \<and>
   map_of (record_all [] ls) n =
     (case find (\<lambda>t. fst t = n) ls of
        None \<Rightarrow> None
      | Some t \<Rightarrow>
          (case find (\<lambda>t. fst t = n) (rev ls) of
             None \<Rightarrow> None
           | Some t' \<Rightarrow> Some [(''current'', Some (fst (snd t))), (''latest'', snd (snd t'))]))"
proof (induction ls arbitrary: n rule: rev_induct)
  case Nil
  then show ?case by (simp add: record_all_def)
next
  case (snoc x ls)
  obtain m v l where x: "x = (m, v, l)" by (cases x)
  have d: "distinct (map fst (record_all [] ls))" and k: "set (map fst (record_all [] ls)) = fst ` set ls"
    using snoc.IH by simp_all
  have mo: "\<And>n. map_of (record_all [] ls) n =
     (case find (\<lambda>t. fst t = n) ls of
        None \<Rightarrow> None
      | Some t \<Rightarrow>
          (case find (\<lambda>t. fst t = n) (rev ls) of
             None \<Rightarrow> None
           | Some t' \<Rightarrow> Some [(''current'', Some (fst (snd t))), (''latest'', snd (snd t'))]))"
    using snoc.IH by simp
  have c1: "distinct (map fst (record_all [] (ls @ [x])))"
    using d by (simp add: x record_all_snoc record_latest_keys)
  have c2: "set (map fst (record_all [] (ls @ [x]))) = fst ` set (ls @ [x])"
    using k by (auto simp add: x record_all_snoc record_latest_keys)
  have fr: "\<And>n. find (\<lambda>t. fst t = n) ls = None \<Longrightarrow> find (\<lambda>t. fst t = n) (rev ls) = None"
    by (simp add: find_None_iff)
  have c3: "map_of (record_all [] (ls @ [x])) n =
     (case find (\<lambda>t. fst t = n) (ls @ [x]) of
        None \<Rightarrow> None
      | Some t \<Rightarrow>
          (case find (\<lambda>t. fst t = n) (rev (ls @ [x])) of
             None \<Rightarrow> None
           | Some t' \<Rightarrow> Some [(''current'', Some (fst (snd t))), (''latest'', snd (snd t'))]))"
  proof (cases "n = m")
    case False
    then show ?thesis
      by (simp add: x record_all_snoc record_latest_map_of mo find_snoc split: option.splits)
  next
    case True
    show ?thesis
    proof (cases "find (\<lambda>t. fst t = m) ls")
      case None
      then show ?thesis
        using True by (simp add: x record_all_snoc record_latest_map_of mo find_snoc)
    next
      case (Some t)
      then have "find (\<lambda>t. fst t = m) (rev ls) \<noteq> None"
        by (metis find_None_iff set_rev option.distinct(1))
      then obtain t' where t': "find (\<lambda>t. fst t = m) (rev ls) = Some t'"
        by blast
      show ?thesis
        using True Some t' by (simp add: x record_all_snoc record_latest_map_of mo find_snoc)
    qed
  qed
  show ?case using c1 c2 c3 by blast
qed

lemma distinct_keys_one_entry:
  "distinct (map fst xs) \<Longrightarrow> map_of xs k = Some v \<Longrightarrow> length (filter (\<lambda>(k', v'). k' = k) xs) = 1"
proof (induction xs)
  case Nil
  then show ?case by simp
next
  case (Cons x xs)
  obtain a b where x: "x = (a, b)" by (cases x)
  show ?case
  proof (cases "a = k")
    case True
    have "filter (\<lambda>(k', v'). k' = k) xs = []"
      using Cons.prems(1) True by (force simp add: x filter_empty_conv)
    then show ?thesis by (simp add: x True)
  next
    case False
    then show ?thesis using Cons by (simp add: x)
  qed
qed

text \<open>
  Claim C10. After the package scan, a package name that the scanned descriptors
  reference (once or several times, with whatever pinned versions) has exactly one entry
  in \<open>package_report\<close>; its \<open>current\<close> is the version of the first reference in scan
  order, and its \<open>latest\<close> is what the last lookup made for that name returned.
\<close>

theorem duplicate_reference_entry:
  assumes "scan_packages_node e w s = (Inr s', w')"
    and "find (\<lambda>t. fst t = name) (scan_lookups e w s) = Some (name, first_ver, l0)"
    and "find (\<lambda>t. fst t = name) (rev (scan_lookups e w s)) = Some (name, v1, last_latest)"
  shows "\<exists>pkgs. package_report s' = Some pkgs \<and>
           length (filter (\<lambda>(k, info). k = name) pkgs) = 1 \<and>
           dict_get pkgs name = Some [(''current'', Some first_ver), (''latest'', last_latest)]"
proof -
  from assms(1) obtain root where root: "get_root s = Inr root"
    by (cases "get_root s") (auto simp add: scan_packages_node_def)
  from assms(1) root obtain pkgs where
    fl: "files_loop e s w [] (scan_csprojs e s root) = (Inr pkgs, w')" and s': "s' = s\<lparr>package_report := Some pkgs\<rparr>"
    by (auto simp add: scan_packages_node_def split: prod.splits sum.splits)
  have pk: "pkgs = record_all [] (scan_lookups e w s)"
    using files_loop_record_all [OF fl] by (simp add: scan_lookups_def root)
  have mo: "map_of pkgs name = Some [(''current'', Some first_ver), (''latest'', last_latest)]"
    using record_all_invariant [of "scan_lookups e w s" name] assms(2,3) by (simp add: pk)
  have "distinct (map fst pkgs)"
    using record_all_invariant [of "scan_lookups e w s" name] by (simp add: pk)
  then have "length (filter (\<lambda>(k, info). k = name) pkgs) = 1"
    using mo by (rule distinct_keys_one_entry)
  then show ?thesis using mo by (simp add: s' dict_get_def)
qed


text \<open>
  The example descriptor references \<open>Newtonsoft.Json\<close> twice, pinned to \<open>12.0.1\<close> and to
  \<open>13.0.1\<close>, and the registry answers the second lookup differently from the first.
\<close>

theorem duplicate_reference_entry_witness:
  "scan_packages_node example_env example_world ((example_state ''/proj'')\<lparr>private_feeds := Some []\<rparr>) =
     (Inr ((example_state ''/proj'')\<lparr>private_feeds := Some [],
             package_report := Some [(''Newtonsoft.Json'',
               [(''current'', Some ''12.0.1''), (''latest'', Some ''13.0.3'')])]\<rparr>),
      \<lparr>now = 2,
       requests = [(''https://api.nuget.org/v3-flatcontainer/newtonsoft.json/index.json'', []),
                   (''https://api.nuget.org/v3-flatcontainer/newtonsoft.json/index.json'', [])]\<rparr>) \<and>
   scan_lookups example_env example_world ((example_state ''/proj'')\<lparr>private_feeds := Some []\<rparr>) =
     [(''Newtonsoft.Json'', ''12.0.1'', Some ''13.0.1''),
      (''Newtonsoft.Json'', ''13.0.1'', Some ''13.0.3'')] \<and>
   (\<exists>pkgs. package_report ((example_state ''/proj'')\<lparr>private_feeds := Some [],
             package_report := Some [(''Newtonsoft.Json'',
               [(''current'', Some ''12.0.1''), (''latest'', Some ''13.0.3'')])]\<rparr>) = Some pkgs \<and>
      length (filter (\<lambda>(k, info). k = ''Newtonsoft.Json'') pkgs) = 1 \<and>
      dict_get pkgs ''Newtonsoft.Json'' = Some [(''current'', Some ''12.0.1''), (''latest'', Some ''13.0.3'')])"
proof -
  have h1: "scan_packages_node example_env example_world ((example_state ''/proj'')\<lparr>private_feeds := Some []\<rparr>) =
     (Inr ((example_state ''/proj'')\<lparr>private_feeds := Some [],
             package_report := Some [(''Newtonsoft.Json'',
               [(''current'', Some ''12.0.1''), (''latest'', Some ''13.0.3'')])]\<rparr>),
      \<lparr>now = 2,
       requests = [(''https://api.nuget.org/v3-flatcontainer/newtonsoft.json/index.json'', []),
                   (''https://api.nuget.org/v3-flatcontainer/newtonsoft.json/index.json'', [])]\<rparr>)"
    by code_simp
  have h0: "scan_lookups example_env example_world ((example_state ''/proj'')\<lparr>private_feeds := Some []\<rparr>) =
     [(''Newtonsoft.Json'', ''12.0.1'', Some ''13.0.1''),
      (''Newtonsoft.Json'', ''13.0.1'', Some ''13.0.3'')]"
    by code_simp
  have h2: "find (\<lambda>t. fst t = ''Newtonsoft.Json'')
      (scan_lookups example_env example_world ((example_state ''/proj'')\<lparr>private_feeds := Some []\<rparr>)) =
      Some (''Newtonsoft.Json'', ''12.0.1'', Some ''13.0.1'')"
    by (simp add: h0)
  have h3: "find (\<lambda>t. fst t = ''Newtonsoft.Json'')
      (rev (scan_lookups example_env example_world ((example_state ''/proj'')\<lparr>private_feeds := Some []\<rparr>))) =
      Some (''Newtonsoft.Json'', ''13.0.1'', Some ''13.0.3'')"
    by (simp add: h0)
  show ?thesis
    using duplicate_reference_entry [OF h1 h2 h3] h1 h0 by simp
qed

section \<open>Facts about the matcher\<close>

lemma starts_with_append: "starts_with l s \<longleftrightarrow> (\<exists>r. s = l @ r)"
  by (induction l s rule: starts_with.induct) auto

lemma starts_with_self: "starts_with l (l @ r)"
  by (simp add: starts_with_append)

lemma contains_iff: "contains l s \<longleftrightarrow> (\<exists>a r. s = a @ l @ r)"
proof (induction s)
  case Nil
  then show ?case by (auto simp add: starts_with_append)
next
  case (Cons c s)
  show ?case
  proof
    assume "contains l (c # s)"
    then consider "starts_with l (c # s)" | "contains l s" by auto
    then show "\<exists>a r. c # s = a @ l @ r"
    proof cases
      case 1
      then obtain r where "c # s = l @ r" by (auto simp add: starts_with_append)
      then have "c # s = [] @ l @ r" by simp
      then show ?thesis by blast
    next
      case 2
      then obtain a r where "s = a @ l @ r" using Cons.IH by blast
      then have "c # s = (c # a) @ l @ r" by simp
      then show ?thesis by blast
    qed
  next
    assume "\<exists>a r. c # s = a @ l @ r"
    then obtain a r where ar: "c # s = a @ l @ r" by blast
    show "contains l (c # s)"
    proof (cases a)
      case Nil
      then have "starts_with l (c # s)"
        by (metis ar append_Nil starts_with_append)
      then show ?thesis by simp
    next
      case (Cons x a')
      then have "s = a' @ l @ r" using ar by simp
      then show ?thesis using Cons.IH by auto
    qed
  qed
qed

lemma starts_with_no_char:
  "starts_with l (a @ c # s) \<Longrightarrow> c \<notin> set l \<Longrightarrow> starts_with l a"
  by (induction l a rule: starts_with.induct) auto

lemma overlap_free:
  assumes "starts_with l (a @ l @ r)" and "a \<noteq> []" and "l \<noteq> []" and "last l \<notin> set (butlast l)"
  shows "starts_with l a"
proof (cases "length l \<le> length a")
  case True
  obtain t where eq: "a @ l @ r = l @ t"
    using assms(1) by (auto simp add: starts_with_append)
  have "take (length l) (a @ l @ r) = take (length l) a"
    using True by simp
  moreover have "take (length l) (l @ t) = l"
    by simp
  ultimately have "l = take (length l) a"
    using eq by simp
  then have "a = l @ drop (length l) a"
    by (metis append_take_drop_id)
  then show ?thesis
    by (metis starts_with_append)
next
  case False
  obtain t where eq: "a @ l @ r = l @ t"
    using assms(1) by (auto simp add: starts_with_append)
  define j where "j = length l - 1 - length a"
  have la: "0 < length a" using assms(2) by simp
  have jl: "j < length l - 1" unfolding j_def using False la by linarith
  have "(l @ t) ! (length l - 1) = l ! (length l - 1)"
    using assms(3) by (simp add: nth_append)
  moreover have "(a @ l @ r) ! (length l - 1) = l ! j"
  proof -
    have "\<not> length l - 1 < length a" using False la by linarith
    then have "(a @ l @ r) ! (length l - 1) = (l @ r) ! j"
      unfolding j_def by (simp only: nth_append if_False)
    moreover have "j < length l" using jl by linarith
    ultimately show ?thesis by (simp add: nth_append)
  qed
  ultimately have "l ! (length l - 1) = l ! j"
    using eq by simp
  then have "last l = butlast l ! j"
    using assms(3) jl by (simp add: last_conv_nth nth_butlast)
  moreover have "butlast l ! j \<in> set (butlast l)"
    using jl by (simp add: nth_mem)
  ultimately show ?thesis
    using assms(4) by simp
qed

lemma match_Lit_starts: "match_at (Lit l # p) acc s = Some m \<Longrightarrow> starts_with l s"
  by (simp split: if_splits)

lemma search_Lit_None: "\<not> contains l s \<Longrightarrow> search (Lit l # p) s = None"
  by (induction s) auto

lemma scan_Lit_None: "\<not> contains l s \<Longrightarrow> scan (Lit l # p) s = ([], s)"
  by (subst scan.simps) (simp add: search_Lit_None)

lemma search_skip:
  assumes "\<not> contains l pre" and "l \<noteq> []" and "last l \<notin> set (butlast l)"
    and "match_at (Lit l # p) [] (l @ r) = Some (gs, r')"
  shows "search (Lit l # p) (pre @ l @ r) = Some (pre, gs, r')"
  using assms(1)
proof (induction pre)
  case Nil
  obtain c s where cs: "l @ r = c # s"
    using assms(2) by (cases l) auto
  show ?case
    using assms(4) by (simp add: cs)
next
  case (Cons x pre)
  have nc: "\<not> starts_with l (x # pre)" and nr: "\<not> contains l pre"
    using Cons.prems by auto
  have "\<not> starts_with l ((x # pre) @ l @ r)"
    using nc overlap_free [of l "x # pre" r] assms(2,3) by blast
  then have "match_at (Lit l # p) [] (x # pre @ l @ r) = None"
    by simp
  then show ?case
    using Cons.IH [OF nr] by simp
qed

lemma lazy_here:
  "starts_with l s \<Longrightarrow> l \<noteq> [] \<Longrightarrow>
   match_at [Rep c 0 False True, Lit l] acc s = Some ([acc], drop (length l) s)"
  by (cases s) auto

lemma lazy_until:
  assumes "\<not> contains l X" and "c \<notin> set l" and "l \<noteq> []"
  shows "match_at [Rep AnyChar 0 False True, Lit l] acc (X @ c # l @ r) = Some ([acc @ X @ [c]], r)"
  using assms(1)
proof (induction X arbitrary: acc)
  case Nil
  have "\<not> starts_with l (c # l @ r)"
    using assms(2,3) by (cases l) auto
  then show ?case
    using lazy_here [of l "l @ r" AnyChar "acc @ [c]"] assms(3) by (simp add: starts_with_self)
next
  case (Cons x X)
  have nc: "\<not> starts_with l (x # X)" and nr: "\<not> contains l X"
    using Cons.prems by auto
  have "\<not> starts_with l ((x # X) @ c # l @ r)"
    using nc starts_with_no_char assms(2) by blast
  then show ?case
    using Cons.IH [OF nr, of "acc @ [x]"] by simp
qed


section \<open>The keys of the report and of the file updates\<close>

lemma then_node_success:
  "then_node r f = (Inr s', w') \<Longrightarrow> \<exists>s1 w1. r = (Inr s1, w1) \<and> f w1 s1 = (Inr s', w')"
  by (cases r) (auto simp add: then_node_def split: sum.splits)

lemma upload_node_success:
  "upload_node e w s = (Inr s1, w1) \<Longrightarrow>
   \<exists>root. uploaded_file_path s = Some root \<and> s1 = s\<lparr>csproj_paths := Some (collect_csproj_files e root)\<rparr>"
  by (auto simp add: upload_node_def get_root_def split: option.splits)

lemma detect_feeds_node_success:
  "detect_feeds_node e w s = (Inr s1, w1) \<Longrightarrow> \<exists>feeds. s1 = s\<lparr>private_feeds := Some feeds\<rparr>"
  by (auto simp add: detect_feeds_node_def split: sum.splits)

lemma generate_jwt_node_success:
  "generate_jwt_node e w s = (Inr s1, w1) \<Longrightarrow> \<exists>tokens. s1 = s\<lparr>feed_tokens := Some tokens\<rparr>"
  by (auto simp add: generate_jwt_node_def split: prod.splits)

lemma scan_packages_node_success:
  "scan_packages_node e w s = (Inr s1, w1) \<Longrightarrow>
   \<exists>root pkgs. uploaded_file_path s = Some root \<and>
      files_loop e s w [] (scan_csprojs e s root) = (Inr pkgs, w1) \<and>
      s1 = s\<lparr>package_report := Some pkgs\<rparr>"
  by (auto simp add: scan_packages_node_def get_root_def split: option.splits sum.splits prod.splits)

lemma analyze_ai_node_success:
  "analyze_ai_node e w s = (Inr s1, w1) \<Longrightarrow> \<exists>c. s1 = s\<lparr>analysis_report := Some c\<rparr>"
  by (auto simp add: analyze_ai_node_def split: sum.splits)

lemma upgrade_ai_node_success:
  "upgrade_ai_node e w s = (Inr s1, w1) \<Longrightarrow>
   \<exists>preview. s1 = s\<lparr>upgrade_preview := Some (Text preview),
                       csproj_updates := Some (parse_updates preview)\<rparr>"
  by (auto simp add: upgrade_ai_node_def split: sum.splits content.splits)

lemma fallback_success:
  assumes "fallback e w s = (Inr s', w')"
  shows "\<exists>root feeds tokens pkgs c preview w3 w4.
           uploaded_file_path s = Some root \<and>
           files_loop e (s\<lparr>csproj_paths := Some (collect_csproj_files e root),
                            private_feeds := Some feeds, feed_tokens := Some tokens\<rparr>) w3 []
             (collect_csproj_files e root) = (Inr pkgs, w4) \<and>
           s' = s\<lparr>csproj_paths := Some (collect_csproj_files e root),
                   private_feeds := Some feeds, feed_tokens := Some tokens,
                   package_report := Some pkgs, analysis_report := Some c,
                   upgrade_preview := Some (Text preview),
                   csproj_updates := Some (parse_updates preview)\<rparr>"
proof -
  define r1 where "r1 = upload_node e w s"
  define r2 where "r2 = then_node r1 (detect_feeds_node e)"
  define r3 where "r3 = then_node r2 (generate_jwt_node e)"
  define r4 where "r4 = then_node r3 (scan_packages_node e)"
  define r5 where "r5 = then_node r4 (analyze_ai_node e)"
  define r6 where "r6 = then_node r5 (upgrade_ai_node e)"
  have "then_node r6 final_node = (Inr s', w')"
    using assms by (simp only: fallback_def r1_def r2_def r3_def r4_def r5_def r6_def)
  then obtain s6 w6 where e6: "r6 = (Inr s6, w6)" and n7: "final_node w6 s6 = (Inr s', w')"
    using then_node_success [of r6 final_node s' w'] by auto
  obtain s5 w5 where e5: "r5 = (Inr s5, w5)" and n6: "upgrade_ai_node e w5 s5 = (Inr s6, w6)"
    using then_node_success [of r5 "upgrade_ai_node e" s6 w6] e6 by (auto simp only: r6_def)
  obtain s4 w4 where e4: "r4 = (Inr s4, w4)" and n5: "analyze_ai_node e w4 s4 = (Inr s5, w5)"
    using then_node_success [of r4 "analyze_ai_node e" s5 w5] e5 by (auto simp only: r5_def)
  obtain s3 w3 where e3: "r3 = (Inr s3, w3)" and n4: "scan_packages_node e w3 s3 = (Inr s4, w4)"
    using then_node_success [of r3 "scan_packages_node e" s4 w4] e4 by (auto simp only: r4_def)
  obtain s2 w2 where e2: "r2 = (Inr s2, w2)" and n3: "generate_jwt_node e w2 s2 = (Inr s3, w3)"
    using then_node_success [of r2 "generate_jwt_node e" s3 w3] e3 by (auto simp only: r3_def)
  obtain s1 w1 where e1: "r1 = (Inr s1, w1)" and n2: "detect_feeds_node e w1 s1 = (Inr s2, w2)"
    using then_node_success [of r1 "detect_feeds_node e" s2 w2] e2 by (auto simp only: r2_def)
  have n1: "upload_node e w s = (Inr s1, w1)"
    using e1 by (simp only: r1_def)
  from upload_node_success [OF n1] obtain root where
    r: "uploaded_file_path s = Some root" and s1: "s1 = s\<lparr>csproj_paths := Some (collect_csproj_files e root)\<rparr>"
    by blast
  from detect_feeds_node_success [OF n2] obtain feeds where s2: "s2 = s1\<lparr>private_feeds := Some feeds\<rparr>"
    by blast
  from generate_jwt_node_success [OF n3] obtain tokens where s3: "s3 = s2\<lparr>feed_tokens := Some tokens\<rparr>"
    by blast
  from scan_packages_node_success [OF n4] obtain root' pkgs where
    r': "uploaded_file_path s3 = Some root'" and
    fl: "files_loop e s3 w3 [] (scan_csprojs e s3 root') = (Inr pkgs, w4)" and
    s4: "s4 = s3\<lparr>package_report := Some pkgs\<rparr>"
    by blast
  have rr: "root' = root" using r r' by (simp add: s1 s2 s3)
  have sc: "scan_csprojs e s3 root = collect_csproj_files e root"
    by (simp add: scan_csprojs_def s1 s2 s3 split: list.splits)
  from analyze_ai_node_success [OF n5] obtain c where s5: "s5 = s4\<lparr>analysis_report := Some c\<rparr>"
    by blast
  from upgrade_ai_node_success [OF n6] obtain preview where
    s6: "s6 = s5\<lparr>upgrade_preview := Some (Text preview), csproj_updates := Some (parse_updates preview)\<rparr>"
    by blast
  have s7: "s' = s6" using n7 by (simp add: final_node_def)
  have "files_loop e s3 w3 [] (collect_csproj_files e root) = (Inr pkgs, w4)"
    using fl by (simp only: rr sc)
  then have "files_loop e (s\<lparr>csproj_paths := Some (collect_csproj_files e root),
                            private_feeds := Some feeds, feed_tokens := Some tokens\<rparr>) w3 []
             (collect_csproj_files e root) = (Inr pkgs, w4)"
    by (simp add: s1 s2 s3)
  moreover have "s' = s\<lparr>csproj_paths := Some (collect_csproj_files e root),
                   private_feeds := Some feeds, feed_tokens := Some tokens,
                   package_report := Some pkgs, analysis_report := Some c,
                   upgrade_preview := Some (Text preview),
                   csproj_updates := Some (parse_updates preview)\<rparr>"
    by (simp add: s1 s2 s3 s4 s5 s6 s7)
  ultimately show ?thesis using r by blast
qed


lemma refs_lookups_names: "map fst (refs_lookups e s w refs) = map fst refs"
proof (induction refs arbitrary: w)
  case Nil
  then show ?case by simp
next
  case (Cons r refs)
  obtain name ver where r: "r = (name, ver)" by (cases r)
  obtain v w' where g: "get_latest_nuget_version_for_feed e w name (first_feed s) (feed_token s (first_feed s)) = (Inr v, w')"
    using get_latest_Inr by blast
  show ?case using Cons.IH [of w'] by (simp add: r g)
qed

lemma names_step:
  assumes t: "read_text e p = Inr body"
  shows "fst ` set (package_references body) \<union>
      {name. \<exists>p body ver. p \<in> set ps \<and> read_text e p = Inr body \<and>
                          (name, ver) \<in> set (package_references body)} =
      {name. \<exists>q body ver. q \<in> set (p # ps) \<and> read_text e q = Inr body \<and>
                          (name, ver) \<in> set (package_references body)}"
proof (rule set_eqI)
  fix n
  have a: "n \<in> fst ` set (package_references body) \<longleftrightarrow>
      (\<exists>ver. (n, ver) \<in> set (package_references body))"
    by force
  show "n \<in> fst ` set (package_references body) \<union>
      {name. \<exists>p body ver. p \<in> set ps \<and> read_text e p = Inr body \<and>
                          (name, ver) \<in> set (package_references body)} \<longleftrightarrow>
      n \<in> {name. \<exists>q body ver. q \<in> set (p # ps) \<and> read_text e q = Inr body \<and>
                          (name, ver) \<in> set (package_references body)}"
    using t by (auto simp add: a)
qed

lemma files_lookups_names:
  "files_loop e s w pkgs ps = (Inr pkgs', w') \<Longrightarrow>
   fst ` set (files_lookups e s w ps) =
     {name. \<exists>p body ver. p \<in> set ps \<and> read_text e p = Inr body \<and>
                          (name, ver) \<in> set (package_references body)}"
proof (induction ps arbitrary: w pkgs)
  case Nil
  then show ?case by simp
next
  case (Cons p ps)
  then obtain body where t: "read_text e p = Inr body"
    by (cases "read_text e p") auto
  have rl: "refs_loop e s w pkgs (package_references body) =
      (Inr (record_all pkgs (refs_lookups e s w (package_references body))),
       snd (refs_loop e s w [] (package_references body)))"
    by (rule refs_loop_record_all)
  from Cons.prems have "files_loop e s (snd (refs_loop e s w [] (package_references body)))
      (record_all pkgs (refs_lookups e s w (package_references body))) ps = (Inr pkgs', w')"
    by (simp add: t rl)
  from Cons.IH [OF this] have ih: "fst ` set (files_lookups e s
        (snd (refs_loop e s w [] (package_references body))) ps) =
      {name. \<exists>p body ver. p \<in> set ps \<and> read_text e p = Inr body \<and>
                          (name, ver) \<in> set (package_references body)}" .
  have "fst ` set (refs_lookups e s w (package_references body)) = fst ` set (package_references body)"
    using refs_lookups_names [of e s w "package_references body"] by (metis set_map)
  then have "fst ` set (files_lookups e s w (p # ps)) =
      fst ` set (package_references body) \<union>
      {name. \<exists>p body ver. p \<in> set ps \<and> read_text e p = Inr body \<and>
                          (name, ver) \<in> set (package_references body)}"
    using ih by (simp add: t image_Un)
  also have "\<dots> = {name. \<exists>q body ver. q \<in> set (p # ps) \<and> read_text e q = Inr body \<and>
                          (name, ver) \<in> set (package_references body)}"
    using t by (rule names_step)
  finally show ?case .
qed

lemma dict_set_map_fst:
  "map fst (dict_set k v d) = (if k \<in> fst ` set d then map fst d else map fst d @ [k])"
proof (induction d)
  case Nil
  then show ?case by simp
next
  case (Cons x d)
  obtain a b where x: "x = (a, b)" by (cases x)
  show ?case
  proof (cases "a = k")
    case True
    then show ?thesis by (simp add: x)
  next
    case False
    then have "k \<noteq> a" by simp
    then show ?thesis using False Cons.IH by (simp add: x)
  qed
qed

lemma dict_set_keys: "fst ` set (dict_set k v d) = insert k (fst ` set d)"
proof -
  have "set (map fst (dict_set k v d)) = insert k (set (map fst d))"
    by (simp only: dict_set_map_fst) auto
  then show ?thesis by simp
qed

lemma foldl_dict_set_keys:
  "fst ` set (foldl (\<lambda>d (k, v). dict_set k v d) d0 xs) = fst ` set d0 \<union> fst ` set xs"
proof (induction xs arbitrary: d0)
  case Nil
  then show ?case by simp
next
  case (Cons x xs)
  obtain k v where x: "x = (k, v)" by (cases x)
  show ?case
    using Cons.IH [of "dict_set k v d0"] by (simp add: x dict_set_keys)
qed

lemma block_entry_iff:
  "x \<in> set (block_entry gs) \<longleftrightarrow> (\<exists>g1 g2. gs = [g1, g2] \<and> x = (strip g1, strip g2))"
  by (cases gs rule: block_entry.cases) auto

lemma parse_updates_keys:
  "set (map fst (parse_updates preview)) =
     {strip g1 | g1 g2. [g1, g2] \<in> set (finditer FILE_BLOCK preview)}"
proof -
  have "set (map fst (parse_updates preview)) =
      fst ` set (concat (map block_entry (finditer FILE_BLOCK preview)))"
    using foldl_dict_set_keys [of "[]" "concat (map block_entry (finditer FILE_BLOCK preview))"]
    by (simp add: parse_updates_def)
  also have "\<dots> = {strip g1 | g1 g2. [g1, g2] \<in> set (finditer FILE_BLOCK preview)}"
  proof (rule set_eqI)
    fix k
    show "k \<in> fst ` set (concat (map block_entry (finditer FILE_BLOCK preview))) \<longleftrightarrow>
          k \<in> {strip g1 | g1 g2. [g1, g2] \<in> set (finditer FILE_BLOCK preview)}"
    proof
      assume "k \<in> fst ` set (concat (map block_entry (finditer FILE_BLOCK preview)))"
      then obtain v gs where "gs \<in> set (finditer FILE_BLOCK preview)" and "(k, v) \<in> set (block_entry gs)"
        by auto
      then obtain g1 g2 where "[g1, g2] \<in> set (finditer FILE_BLOCK preview)" and "k = strip g1"
        by (auto simp add: block_entry_iff)
      then show "k \<in> {strip g1 | g1 g2. [g1, g2] \<in> set (finditer FILE_BLOCK preview)}"
        by blast
    next
      assume "k \<in> {strip g1 | g1 g2. [g1, g2] \<in> set (finditer FILE_BLOCK preview)}"
      then obtain g1 g2 where m: "[g1, g2] \<in> set (finditer FILE_BLOCK preview)" and k: "k = strip g1"
        by blast
      have "(k, strip g2) \<in> set (block_entry [g1, g2])"
        by (simp add: k)
      then have "(k, strip g2) \<in> (\<Union>gs\<in>set (finditer FILE_BLOCK preview). set (block_entry gs))"
        using m by blast
      then have "(k, strip g2) \<in> set (concat (map block_entry (finditer FILE_BLOCK preview)))"
        by (simp only: set_concat set_map image_image)
      then show "k \<in> fst ` set (concat (map block_entry (finditer FILE_BLOCK preview)))"
        by (rule rev_image_eqI) simp
    qed
  qed
  finally show ?thesis .
qed

text \<open>
  Claim C3, amended. After a complete run the keys of \<open>package_report\<close> are exactly the
  package names of the \<open>PackageReference\<close> declarations found in the descriptor files of
  the project, and the keys of \<open>file_updates\<close> are exactly the stripped path texts of the
  headers of the blocks recognised in the rewrite response, as the completion service
  wrote them.
\<close>

theorem report_keys_are_names:
  assumes "fallback e w s = (Inr s', w')"
  shows "\<exists>root pkgs preview ups.
           uploaded_file_path s = Some root \<and> package_report s' = Some pkgs \<and>
           upgrade_preview s' = Some (Text preview) \<and> csproj_updates s' = Some ups \<and>
           set (map fst pkgs) =
             {name. \<exists>p body ver. p \<in> set (collect_csproj_files e root) \<and>
                      read_text e p = Inr body \<and> (name, ver) \<in> set (package_references body)} \<and>
           set (map fst ups) =
             {strip g1 | g1 g2. [g1, g2] \<in> set (finditer FILE_BLOCK preview)}"
proof -
  from fallback_success [OF assms] obtain root feeds tokens pkgs c preview w3 w4 where
    r: "uploaded_file_path s = Some root" and
    fl: "files_loop e (s\<lparr>csproj_paths := Some (collect_csproj_files e root),
                            private_feeds := Some feeds, feed_tokens := Some tokens\<rparr>) w3 []
             (collect_csproj_files e root) = (Inr pkgs, w4)" and
    s': "s' = s\<lparr>csproj_paths := Some (collect_csproj_files e root),
                   private_feeds := Some feeds, feed_tokens := Some tokens,
                   package_report := Some pkgs, analysis_report := Some c,
                   upgrade_preview := Some (Text preview),
                   csproj_updates := Some (parse_updates preview)\<rparr>"
    by blast
  define s3 where "s3 = s\<lparr>csproj_paths := Some (collect_csproj_files e root),
                            private_feeds := Some feeds, feed_tokens := Some tokens\<rparr>"
  have fl3: "files_loop e s3 w3 [] (collect_csproj_files e root) = (Inr pkgs, w4)"
    using fl by (simp only: s3_def)
  have "pkgs = record_all [] (files_lookups e s3 w3 (collect_csproj_files e root))"
    using files_loop_record_all [OF fl3] .
  then have "set (map fst pkgs) = fst ` set (files_lookups e s3 w3 (collect_csproj_files e root))"
    using record_all_invariant [of "files_lookups e s3 w3 (collect_csproj_files e root)" "[]"] by simp
  then have k1: "set (map fst pkgs) =
             {name. \<exists>p body ver. p \<in> set (collect_csproj_files e root) \<and>
                      read_text e p = Inr body \<and> (name, ver) \<in> set (package_references body)}"
    using files_lookups_names [OF fl3] by simp
  have k2: "set (map fst (parse_updates preview)) =
             {strip g1 | g1 g2. [g1, g2] \<in> set (finditer FILE_BLOCK preview)}"
    by (rule parse_updates_keys)
  show ?thesis
    using r k1 k2 by (simp add: s')
qed


text \<open>
  Claim C3, as stated, fails: no step checks a key against the project tree. In the
  example run \<open>package_report\<close> is keyed by the package name \<open>Newtonsoft.Json\<close> and
  \<open>file_updates\<close> by the path \<open>../other/App.csproj\<close> of the response; neither is the
  relative path of a file under the project root.
\<close>

theorem report_keys_not_relative_paths:
  "fst (fallback example_env example_world (example_state ''/proj'')) =
     Inr ((example_state ''/proj'')\<lparr>
        private_feeds := Some [''https://feed.example/''],
        feed_tokens := Some [(''https://feed.example/'', ''jwthttps://feed.example/00'')],
        csproj_paths := Some [''/proj/App.csproj''],
        package_report := Some [(''Newtonsoft.Json'',
                                 [(''current'', Some ''12.0.1''), (''latest'', None)])],
        analysis_report := Some (Text ''report''),
        upgrade_preview := Some (Text example_preview),
        csproj_updates := Some [(''../other/App.csproj'', ''X'')]\<rparr>) \<and>
   \<not> relative_path_under_root example_env ''/proj'' ''Newtonsoft.Json'' \<and>
   \<not> relative_path_under_root example_env ''/proj'' ''../other/App.csproj''"
  by code_simp

theorem report_keys_are_names_witness:
  "fallback example_env example_world (example_state ''/proj'') =
     (Inr ((example_state ''/proj'')\<lparr>
        private_feeds := Some [''https://feed.example/''],
        feed_tokens := Some [(''https://feed.example/'', ''jwthttps://feed.example/00'')],
        csproj_paths := Some [''/proj/App.csproj''],
        package_report := Some [(''Newtonsoft.Json'',
                                 [(''current'', Some ''12.0.1''), (''latest'', None)])],
        analysis_report := Some (Text ''report''),
        upgrade_preview := Some (Text example_preview),
        csproj_updates := Some [(''../other/App.csproj'', ''X'')]\<rparr>),
      \<lparr>now = 6,
       requests = [(''https://feed.example/v3-flatcontainer/newtonsoft.json/index.json'',
                    [(''Authorization'', ''Bearer jwthttps://feed.example/00'')]),
                   (''https://feed.example/v3-flatcontainer/newtonsoft.json/index.json'',
                    [(''Authorization'', ''Bearer jwthttps://feed.example/00'')])]\<rparr>) \<and>
   (\<exists>root pkgs preview ups.
       uploaded_file_path (example_state ''/proj'') = Some root \<and>
       package_report ((example_state ''/proj'')\<lparr>
        private_feeds := Some [''https://feed.example/''],
        feed_tokens := Some [(''https://feed.example/'', ''jwthttps://feed.example/00'')],
        csproj_paths := Some [''/proj/App.csproj''],
        package_report := Some [(''Newtonsoft.Json'',
                                 [(''current'', Some ''12.0.1''), (''latest'', None)])],
        analysis_report := Some (Text ''report''),
        upgrade_preview := Some (Text example_preview),
        csproj_updates := Some [(''../other/App.csproj'', ''X'')]\<rparr>) = Some pkgs \<and>
       upgrade_preview ((example_state ''/proj'')\<lparr>
        private_feeds := Some [''https://feed.example/''],
        feed_tokens := Some [(''https://feed.example/'', ''jwthttps://feed.example/00'')],
        csproj_paths := Some [''/proj/App.csproj''],
        package_report := Some [(''Newtonsoft.Json'',
                                 [(''current'', Some ''12.0.1''), (''latest'', None)])],
        analysis_report := Some (Text ''report''),
        upgrade_preview := Some (Text example_preview),
        csproj_updates := Some [(''../other/App.csproj'', ''X'')]\<rparr>) = Some (Text preview) \<and>
       csproj_updates ((example_state ''/proj'')\<lparr>
        private_feeds := Some [''https://feed.example/''],
        feed_tokens := Some [(''https://feed.example/'', ''jwthttps://feed.example/00'')],
        csproj_paths := Some [''/proj/App.csproj''],
        package_report := Some [(''Newtonsoft.Json'',
                                 [(''current'', Some ''12.0.1''), (''latest'', None)])],
        analysis_report := Some (Text ''report''),
        upgrade_preview := Some (Text example_preview),
        csproj_updates := Some [(''../other/App.csproj'', ''X'')]\<rparr>) = Some ups \<and>
       set (map fst pkgs) =
         {name. \<exists>p body ver. p \<in> set (collect_csproj_files example_env root) \<and>
                  read_text example_env p = Inr body \<and> (name, ver) \<in> set (package_references body)} \<and>
       set (map fst ups) =
         {strip g1 | g1 g2. [g1, g2] \<in> set (finditer FILE_BLOCK preview)})"
proof -
  have h: "fallback example_env example_world (example_state ''/proj'') =
     (Inr ((example_state ''/proj'')\<lparr>
        private_feeds := Some [''https://feed.example/''],
        feed_tokens := Some [(''https://feed.example/'', ''jwthttps://feed.example/00'')],
        csproj_paths := Some [''/proj/App.csproj''],
        package_report := Some [(''Newtonsoft.Json'',
                                 [(''current'', Some ''12.0.1''), (''latest'', None)])],
        analysis_report := Some (Text ''report''),
        upgrade_preview := Some (Text example_preview),
        csproj_updates := Some [(''../other/App.csproj'', ''X'')]\<rparr>),
      \<lparr>now = 6,
       requests = [(''https://feed.example/v3-flatcontainer/newtonsoft.json/index.json'',
                    [(''Authorization'', ''Bearer jwthttps://feed.example/00'')]),
                   (''https://feed.example/v3-flatcontainer/newtonsoft.json/index.json'',
                    [(''Authorization'', ''Bearer jwthttps://feed.example/00'')])]\<rparr>)"
    by code_simp
  show ?thesis
    using report_keys_are_names [OF h] h by blast
qed

section \<open>The parser of the rewrite step\<close>

lemma strip_fixed_ends:
  assumes "strip p = p" and "p \<noteq> []"
  shows "\<not> is_space (hd p) \<and> \<not> is_space (last p)"
proof -
  have l1: "length (dropWhile is_space (rev (dropWhile is_space p))) \<le> length (dropWhile is_space p)"
    by (metis length_dropWhile_le length_rev)
  have l2: "length (dropWhile is_space p) \<le> length p"
    by (rule length_dropWhile_le)
  have "length (strip p) = length p" using assms(1) by simp
  then have e1: "length (dropWhile is_space (rev (dropWhile is_space p))) = length p"
    by (simp add: strip_def)
  then have e2: "length (dropWhile is_space p) = length p"
    using l1 l2 by linarith
  then have d: "dropWhile is_space p = p"
    by (metis append_eq_conv_conj length_append takeWhile_dropWhile_id add_cancel_left_left length_0_conv append_Nil)
  have h: "\<not> is_space (hd p)"
    using d assms(2) by (metis hd_dropWhile)
  have "length (dropWhile is_space (rev p)) = length (rev p)"
    using e1 d by simp
  then have "dropWhile is_space (rev p) = rev p"
    by (metis append_eq_conv_conj length_append takeWhile_dropWhile_id add_cancel_left_left length_0_conv append_Nil)
  then have "\<not> is_space (hd (rev p))"
    using assms(2) by (metis hd_dropWhile rev_is_Nil_conv)
  then have "\<not> is_space (last p)"
    using assms(2) by (simp add: hd_rev)
  then show ?thesis using h by simp
qed

lemma space_lit_none:
  assumes "\<And>ws rest. t = ws @ l @ rest \<Longrightarrow> \<forall>c\<in>set ws. is_space c \<Longrightarrow> False"
  shows "match_at (Rep Space 0 True False # Lit l # Q) acc t = None"
  using assms
proof (induction t arbitrary: acc)
  case Nil
  have "\<not> starts_with l []"
    using Nil [of "[]" "[]"] by (auto simp add: starts_with_append)
  then show ?case by simp
next
  case (Cons x t)
  have ns: "\<not> starts_with l (x # t)"
  proof
    assume "starts_with l (x # t)"
    then obtain rest where "x # t = [] @ l @ rest" by (auto simp add: starts_with_append)
    then show False using Cons.prems [of "[]" rest] by simp
  qed
  have inner: "is_space x \<Longrightarrow> match_at (Rep Space 0 True False # Lit l # Q) (acc @ [x]) t = None"
  proof -
    assume sp: "is_space x"
    show ?thesis
    proof (rule Cons.IH)
      fix ws rest
      assume "t = ws @ l @ rest" and "\<forall>c\<in>set ws. is_space c"
      then have "x # t = (x # ws) @ l @ rest" and "\<forall>c\<in>set (x # ws). is_space c"
        using sp by simp_all
      then show False using Cons.prems by blast
    qed
  qed
  show ?case
    using ns inner by simp
qed

lemma dash_not_space: "\<not> is_space CHR ''-''"
  by (simp add: is_space_def)

lemma newline_is_space: "is_space (CHR 0x0A)"
  by (simp add: is_space_def)

lemma header_tail:
  assumes "q \<noteq> []" and "\<not> is_space (last q)" and "CHR 0x0A \<notin> set q"
    and "list_all is_space ws2" and "CHR 0x0A \<notin> set ws2"
    and "q @ ws2 @ ''--'' @ [CHR 0x0A] @ body = ws @ ''--'' @ [CHR 0x0A] @ rest"
    and "\<forall>c\<in>set ws. is_space c"
  shows False
  using assms(1,2,3,6,7)
proof (induction q arbitrary: ws)
  case Nil
  then show ?case by simp
next
  case (Cons x q)
  show ?case
  proof (cases ws)
    case Nil
    note wsn = this
    show ?thesis
    proof (cases q)
      case Nil
      show ?thesis
      proof (cases ws2)
        case Nil
        then show ?thesis using Cons.prems wsn \<open>q = []\<close> by simp
      next
        case (Cons w ws2')
        then have "is_space w" using assms(4) by simp
        moreover have "w = CHR ''-''" using Cons.prems wsn \<open>q = []\<close> Cons by simp
        ultimately show ?thesis using dash_not_space by simp
      qed
    next
      case (Cons y q')
      note qc = this
      show ?thesis
      proof (cases q')
        case Nil
        show ?thesis
        proof (cases ws2)
          case Nil
          then show ?thesis using Cons.prems wsn qc \<open>q' = []\<close> by simp
        next
          case (Cons w ws2')
          then have "w = CHR 0x0A" using Cons.prems wsn qc \<open>q' = []\<close> by simp
          then show ?thesis using assms(5) Cons by simp
        qed
      next
        case (Cons z q'')
        then show ?thesis using Cons.prems wsn qc by simp
      qed
    qed
  next
    case (Cons w ws')
    then have xw: "x = w"
      and tl: "q @ ws2 @ ''--'' @ [CHR 0x0A] @ body = ws' @ ''--'' @ [CHR 0x0A] @ rest"
      using Cons.prems(4) by simp_all
    have spx: "is_space x" using Cons.prems(5) Cons xw by simp
    have qne: "q \<noteq> []"
    proof
      assume "q = []"
      then have "last (x # q) = x" by simp
      then show False using Cons.prems(2) spx by simp
    qed
    have "\<not> is_space (last q)" using Cons.prems(2) qne by simp
    moreover have "CHR 0x0A \<notin> set q" using Cons.prems(3) by simp
    moreover have "\<forall>c\<in>set ws'. is_space c" using Cons.prems(5) Cons by simp
    ultimately show ?thesis using Cons.IH [OF qne _ _ tl] by blast
  qed
qed

lemma space_lit_here:
  assumes "list_all is_space ws2"
  shows "match_at (Rep Space 0 True False # Lit (''--'' @ [CHR 0x0A]) # Q) acc
           (ws2 @ ''--'' @ [CHR 0x0A] @ body) = match_at Q [] body"
  using assms
proof (induction ws2 arbitrary: acc)
  case Nil
  show ?case
    using dash_not_space by (cases "match_at Q [] body") auto
next
  case (Cons w ws2)
  have sp: "is_space w" and rest: "list_all is_space ws2"
    using Cons.prems by simp_all
  have nd: "w \<noteq> CHR ''-''" using sp dash_not_space by auto
  have inner: "match_at (Rep Space 0 True False # Lit (''--'' @ [CHR 0x0A]) # Q) (acc @ [w])
      (ws2 @ ''--'' @ [CHR 0x0A] @ body) = match_at Q [] body"
    by (rule Cons.IH [OF rest])
  show ?case
    using sp nd inner by (cases "match_at Q [] body") auto
qed

lemma lazy_path:
  assumes "q = [] \<or> \<not> is_space (last q)" and "CHR 0x0A \<notin> set q"
    and "list_all is_space ws2" and "CHR 0x0A \<notin> set ws2"
    and "match_at Q [] body = Some (gs, r)"
  shows "match_at (Rep AnyChar 0 False True # Rep Space 0 True False # Lit (''--'' @ [CHR 0x0A]) # Q) acc
           (q @ ws2 @ ''--'' @ [CHR 0x0A] @ body) = Some ((acc @ q) # gs, r)"
  using assms(1,2)
proof (induction q arbitrary: acc)
  case Nil
  define t where "t = ws2 @ ''--'' @ [CHR 0x0A] @ body"
  have here: "match_at (Rep Space 0 True False # Lit (''--'' @ [CHR 0x0A]) # Q) [] t = Some (gs, r)"
    unfolding t_def using space_lit_here [OF assms(3)] assms(5) by simp
  have "match_at (Rep AnyChar 0 False True # Rep Space 0 True False # Lit (''--'' @ [CHR 0x0A]) # Q) acc t =
      Some (acc # gs, r)"
    using here by (cases t) simp_all
  then show ?case by (simp add: t_def)
next
  case (Cons x q)
  define t where "t = q @ ws2 @ ''--'' @ [CHR 0x0A] @ body"
  have last_ns: "\<not> is_space (last (x # q))" using Cons.prems(1) by simp
  have none: "match_at (Rep Space 0 True False # Lit (''--'' @ [CHR 0x0A]) # Q) [] (x # t) = None"
  proof (rule space_lit_none)
    fix ws rest
    assume "x # t = ws @ (''--'' @ [CHR 0x0A]) @ rest" and "\<forall>c\<in>set ws. is_space c"
    then show False
      using header_tail [of "x # q" ws2 body ws rest] last_ns Cons.prems(2) assms(3,4)
      by (simp add: t_def)
  qed
  have q': "q = [] \<or> \<not> is_space (last q)" using last_ns by (cases q) simp_all
  have "CHR 0x0A \<notin> set q" using Cons.prems(2) by simp
  from Cons.IH [OF q' this, of "acc @ [x]"]
  have "match_at (Rep AnyChar 0 False True # Rep Space 0 True False # Lit (''--'' @ [CHR 0x0A]) # Q)
      (acc @ [x]) t = Some ((acc @ x # q) # gs, r)"
    by (simp add: t_def)
  then have "match_at (Rep AnyChar 0 False True # Rep Space 0 True False # Lit (''--'' @ [CHR 0x0A]) # Q)
      acc (x # t) = Some ((acc @ x # q) # gs, r)"
    using none by simp
  then show ?case by (simp add: t_def)
qed

lemma starts_with_shorter:
  "starts_with l (a @ b) \<Longrightarrow> length l \<le> length a \<Longrightarrow> starts_with l a"
proof (induction l a rule: starts_with.induct)
  case (1 s)
  then show ?case by simp
next
  case (2 a l)
  then show ?case by simp
next
  case (3 a l b s)
  then show ?case by simp
qed

lemma lazy_first:
  assumes "\<not> contains l (X @ butlast l)" and "l \<noteq> []"
  shows "match_at [Rep AnyChar 0 False True, Lit l] acc (X @ l @ r) = Some ([acc @ X], r)"
  using assms(1)
proof (induction X arbitrary: acc)
  case Nil
  show ?case
    using lazy_here [of l "l @ r" AnyChar acc] assms(2) by (simp add: starts_with_self)
next
  case (Cons x X)
  have nc: "\<not> starts_with l ((x # X) @ butlast l)" and nr: "\<not> contains l (X @ butlast l)"
    using Cons.prems by auto
  have split: "(x # X) @ l @ r = ((x # X) @ butlast l) @ (last l # r)"
    using assms(2) by (simp add: append_butlast_last_id [symmetric] del: append_butlast_last_id)
  have len: "length l \<le> length ((x # X) @ butlast l)"
    using assms(2) by (cases l) simp_all
  have "\<not> starts_with l ((x # X) @ l @ r)"
  proof
    assume "starts_with l ((x # X) @ l @ r)"
    then have "starts_with l (((x # X) @ butlast l) @ (last l # r))"
      by (simp only: split)
    from starts_with_shorter [OF this len] nc show False by simp
  qed
  then show ?case
    using Cons.IH [OF nr, of "acc @ [x]"] by simp
qed

lemma file_block_body:
  assumes "\<not> contains ''--END FILE--'' (body @ ''--END FILE-'')"
  shows "match_at [Rep AnyChar 0 False True, Lit ''--END FILE--''] [] (body @ ''--END FILE--'' @ r) =
           Some ([body], r)"
  using lazy_first [of "''--END FILE--''" body "[]" r] assms by simp

lemma greedy_space_skip:
  assumes "list_all is_space ws" and "\<not> is_space x" and "match_at P [] (x # t) = Some m"
  shows "match_at (Rep Space 0 True False # P) acc (ws @ x # t) = Some m"
  using assms(1)
proof (induction ws arbitrary: acc)
  case Nil
  show ?case using assms(2,3) by (cases m) simp
next
  case (Cons w ws)
  have "is_space w" and "list_all is_space ws" using Cons.prems by simp_all
  then show ?case using Cons.IH [of "acc @ [w]"] by simp
qed

lemma file_block_match:
  assumes "list_all is_space ws1" and "list_all is_space ws2" and "CHR 0x0A \<notin> set ws2"
    and "p \<noteq> []" and "strip p = p" and "CHR 0x0A \<notin> set p"
    and "\<not> contains ''--END FILE--'' (body @ ''--END FILE-'')"
  shows "match_at FILE_BLOCK [] (file_block ws1 p ws2 body @ rest) = Some ([p, body], rest)"
proof -
  define Q where "Q = [Rep AnyChar 0 False True, Lit ''--END FILE--'']"
  define tail where "tail = body @ ''--END FILE--'' @ rest"
  define G where "G = Rep AnyChar 0 False True # Rep Space 0 True False # Lit (''--'' @ [CHR 0x0A]) # Q"
  define t where "t = tl p @ ws2 @ ''--'' @ [CHR 0x0A] @ tail"
  have b: "match_at Q [] tail = Some ([body], rest)"
    unfolding Q_def tail_def by (rule file_block_body [OF assms(7)])
  have ends: "\<not> is_space (hd p)" "\<not> is_space (last p)"
    using strip_fixed_ends [OF assms(5,4)] by simp_all
  have pt: "p @ ws2 @ ''--'' @ [CHR 0x0A] @ tail = hd p # t"
    using assms(4) by (cases p) (simp_all add: t_def)
  have "match_at G [] (p @ ws2 @ ''--'' @ [CHR 0x0A] @ tail) = Some ([p, body], rest)"
    unfolding G_def
    using lazy_path [of p ws2 Q tail "[body]" rest "[]"] ends(2) assms(2,3,6) b by simp
  then have lz: "match_at G [] (hd p # t) = Some ([p, body], rest)"
    by (simp only: pt)
  have g: "match_at (Rep Space 0 True False # G) [] (ws1 @ hd p # t) = Some ([p, body], rest)"
    using assms(1) ends(1) lz by (rule greedy_space_skip)
  have "file_block ws1 p ws2 body @ rest = ''--FILE:'' @ ws1 @ hd p # t"
    using pt by (simp add: file_block_def tail_def)
  moreover have "match_at (Lit ''--FILE:'' # Rep Space 0 True False # G) []
      (''--FILE:'' @ ws1 @ hd p # t) = Some ([p, body], rest)"
    using g by simp
  moreover have "FILE_BLOCK = Lit ''--FILE:'' # Rep Space 0 True False # G"
    by (simp add: FILE_BLOCK_def G_def Q_def)
  ultimately show ?thesis by simp
qed

lemma scan_file_block:
  assumes "well_formed_block (before, ws1, p, ws2, body)"
  shows "scan FILE_BLOCK (before @ file_block ws1 p ws2 body @ rest) =
           (case scan FILE_BLOCK rest of (ms, tail) \<Rightarrow> ((before, [p, body]) # ms, tail))"
proof -
  define response where "response = before @ file_block ws1 p ws2 body @ rest"
  have wf: "\<not> contains ''--FILE:'' before" "list_all is_space ws1" "list_all is_space ws2"
    "CHR 0x0A \<notin> set ws2" "p \<noteq> []" "strip p = p" "CHR 0x0A \<notin> set p"
    "\<not> contains ''--END FILE--'' (body @ ''--END FILE-'')"
    using assms by simp_all
  have m: "match_at FILE_BLOCK [] (file_block ws1 p ws2 body @ rest) = Some ([p, body], rest)"
    by (rule file_block_match [OF wf(2-8)])
  obtain r where fb: "file_block ws1 p ws2 body @ rest = ''--FILE:'' @ r"
    by (simp add: file_block_def)
  have "match_at (Lit ''--FILE:'' # tl FILE_BLOCK) [] (''--FILE:'' @ r) = Some ([p, body], rest)"
    using m by (simp only: fb) (simp add: FILE_BLOCK_def)
  then have "search (Lit ''--FILE:'' # tl FILE_BLOCK) (before @ ''--FILE:'' @ r) =
      Some (before, [p, body], rest)"
    using wf(1) by (intro search_skip) simp_all
  moreover have "Lit ''--FILE:'' # tl FILE_BLOCK = FILE_BLOCK"
    by (simp add: FILE_BLOCK_def)
  ultimately have se: "search FILE_BLOCK response = Some (before, [p, body], rest)"
    by (simp only: response_def fb)
  have len: "length rest < length response"
    by (simp add: response_def file_block_def)
  show ?thesis
    unfolding response_def [symmetric]
    by (subst scan.simps) (simp add: se len)
qed

lemma finditer_render_response:
  assumes "list_all well_formed_block blocks" and "\<not> contains ''--FILE:'' last_text"
  shows "finditer FILE_BLOCK (render_response blocks last_text) =
           map (\<lambda>(before, ws1, p, ws2, body). [p, body]) blocks"
  using assms(1)
proof (induction blocks)
  case Nil
  have "scan FILE_BLOCK last_text = ([], last_text)"
    using scan_Lit_None [OF assms(2)] by (simp add: FILE_BLOCK_def)
  then show ?case by (simp add: finditer_def)
next
  case (Cons b blocks)
  obtain before ws1 p ws2 body where b: "b = (before, ws1, p, ws2, body)" by (cases b)
  have wf: "well_formed_block (before, ws1, p, ws2, body)" and rest: "list_all well_formed_block blocks"
    using Cons.prems by (simp_all add: b)
  show ?case
    using Cons.IH [OF rest] scan_file_block [OF wf, of "render_response blocks last_text"]
    by (simp add: b finditer_def split: prod.splits)
qed

lemma parse_updates_render:
  assumes "list_all well_formed_block blocks" and "\<not> contains ''--FILE:'' last_text"
  shows "parse_updates (render_response blocks last_text) =
           foldl (\<lambda>d (before, ws1, path, ws2, body). dict_set path (strip body) d) [] blocks"
proof -
  have "concat (map block_entry (map (\<lambda>(before, ws1, p, ws2, body). [p, body]) blocks)) =
      map (\<lambda>(before, ws1, p, ws2, body). (p, strip body)) blocks"
    using assms(1)
  proof (induction blocks)
    case Nil
    then show ?case by simp
  next
    case (Cons b blocks)
    obtain before ws1 p ws2 body where b: "b = (before, ws1, p, ws2, body)" by (cases b)
    have "strip p = p" using Cons.prems by (simp add: b)
    then show ?case using Cons by (simp add: b)
  qed
  then have "parse_updates (render_response blocks last_text) =
      foldl (\<lambda>d (rel, xml). dict_set rel xml d) []
        (map (\<lambda>(before, ws1, p, ws2, body). (p, strip body)) blocks)"
    by (simp add: parse_updates_def finditer_render_response [OF assms])
  also have "\<dots> = foldl (\<lambda>d (before, ws1, path, ws2, body). dict_set path (strip body) d) [] blocks"
    by (simp add: foldl_map split_def)
  finally show ?thesis .
qed

lemma strip_trailing_space: "is_space c \<Longrightarrow> strip (X @ [c]) = strip X"
proof (cases "\<forall>x\<in>set X. is_space x")
  case True
  assume c: "is_space c"
  have "dropWhile is_space X = []"
    using True by (simp add: dropWhile_eq_Nil_conv)
  moreover have "dropWhile is_space (X @ [c]) = []"
    using True c by (simp add: dropWhile_eq_Nil_conv)
  ultimately show ?thesis by (simp only: strip_def)
next
  case False
  assume c: "is_space c"
  from False obtain x where "x \<in> set X" and "\<not> is_space x" by blast
  then have "dropWhile is_space (X @ [c]) = dropWhile is_space X @ [c]"
    by (simp add: dropWhile_append1)
  then show ?thesis using c by (simp add: strip_def)
qed

lemma contains_after_char:
  assumes "\<not> contains l X" and "c \<notin> set l" and "l \<noteq> []" and "\<not> contains l B"
  shows "\<not> contains l (X @ c # B)"
  using assms(1)
proof (induction X)
  case Nil
  have "\<not> starts_with l (c # B)"
    using assms(2,3) by (cases l) auto
  then show ?case using assms(4) by simp
next
  case (Cons x X)
  have nc: "\<not> starts_with l (x # X)" and nr: "\<not> contains l X"
    using Cons.prems by auto
  have "\<not> starts_with l ((x # X) @ c # B)"
    using nc starts_with_no_char assms(2) by blast
  then show ?case using Cons.IH [OF nr] by simp
qed

lemma one_block_well_formed:
  assumes "\<not> contains ''--FILE:'' before" and "\<not> contains ''--END FILE--'' X"
  shows "well_formed_block (before, '' '', ''src/A.csproj'', '' '', X @ [CHR 0x0A])"
proof -
  have p: "strip ''src/A.csproj'' = ''src/A.csproj''" by code_simp
  have sp: "is_space CHR '' ''" by (simp add: is_space_def)
  have short: "\<not> contains ''--END FILE--'' ''--END FILE-''" by code_simp
  have "\<not> contains ''--END FILE--'' (X @ CHR 0x0A # ''--END FILE-'')"
    using assms(2) _ _ short by (rule contains_after_char) simp_all
  then show ?thesis
    using assms(1) p sp by simp
qed

text \<open>
  Claim C6, as stated, fails. The parser does not store the content of a block as it
  stands: \<^verbatim>\<open>xml = m.group(2).strip()\<close> removes the white space at both ends. For the one
  block for \<^verbatim>\<open>src/A.csproj\<close> whose content is \<^verbatim>\<open>  <Project />\<close>, indented by two blanks, the
  mapping holds \<^verbatim>\<open><Project />\<close>, which is not the content of the block.
\<close>

theorem parse_updates_strips_content:
  "parse_updates (''--FILE: src/A.csproj --'' @ [CHR 0x0A] @ ''  <Project />'' @ [CHR 0x0A] @
                  ''--END FILE--'') =
     [(''src/A.csproj'', ''<Project />'')] \<and>
   parse_updates (''--FILE: src/A.csproj --'' @ [CHR 0x0A] @ ''  <Project />'' @ [CHR 0x0A] @
                  ''--END FILE--'') \<noteq>
     [(''src/A.csproj'', ''  <Project />'')]"
  by code_simp

text \<open>
  Claim C6, amended. Take a response made of any number of blocks, each after some text
  without the start marker, and a text without the start marker after the last block. A
  block is \<^verbatim>\<open>--FILE:\<close>, any white space, a path, any white space without a newline,
  \<^verbatim>\<open>--\<close> and a newline, a body, and \<^verbatim>\<open>--END FILE--\<close>, where the path is not empty, lies on
  one line and has no white space at its ends, and the end marker is the first one after
  the header. The parser assigns, block after block in the order of the response, the
  body stripped of the white space at its ends to the path of the block: every block
  gives an entry, and a later block for a path replaces the entry of an earlier one. In
  particular a response with exactly one block for \<^verbatim>\<open>src/A.csproj\<close> written as the prompt
  asks, with a content \<open>X\<close> that holds no end marker, yields
  \<^verbatim>\<open>{"src/A.csproj": X.strip()}\<close>, and a response without the start marker yields the
  empty mapping, not an error.
\<close>

theorem parse_updates_blocks:
  "(list_all well_formed_block blocks \<and> \<not> contains ''--FILE:'' last_text \<longrightarrow>
      parse_updates (render_response blocks last_text) =
        foldl (\<lambda>d (before, ws1, path, ws2, body). dict_set path (strip body) d) [] blocks) \<and>
   (\<not> contains ''--FILE:'' before \<and> \<not> contains ''--END FILE--'' X \<and>
    \<not> contains ''--FILE:'' after \<longrightarrow>
      parse_updates (before @ ''--FILE: src/A.csproj --'' @ [CHR 0x0A] @ X @ [CHR 0x0A] @
                     ''--END FILE--'' @ after) =
        [(''src/A.csproj'', strip X)]) \<and>
   (\<not> contains ''--FILE:'' response \<longrightarrow> parse_updates response = [])"
proof (intro conjI impI)
  assume "list_all well_formed_block blocks \<and> \<not> contains ''--FILE:'' last_text"
  then show "parse_updates (render_response blocks last_text) =
      foldl (\<lambda>d (before, ws1, path, ws2, body). dict_set path (strip body) d) [] blocks"
    by (simp add: parse_updates_render)
next
  assume h: "\<not> contains ''--FILE:'' before \<and> \<not> contains ''--END FILE--'' X \<and>
    \<not> contains ''--FILE:'' after"
  define block where "block = (before, '' '', ''src/A.csproj'', '' '', X @ [CHR 0x0A])"
  have wf: "list_all well_formed_block [block]"
    using one_block_well_formed [of before X] h by (simp add: block_def)
  have na: "\<not> contains ''--FILE:'' after" using h by simp
  have "parse_updates (render_response [block] after) =
      foldl (\<lambda>d (before, ws1, path, ws2, body). dict_set path (strip body) d) [] [block]"
    by (rule parse_updates_render [OF wf na])
  moreover have "render_response [block] after =
      before @ ''--FILE: src/A.csproj --'' @ [CHR 0x0A] @ X @ [CHR 0x0A] @ ''--END FILE--'' @ after"
    by (simp add: block_def file_block_def)
  moreover have "strip (X @ [CHR 0x0A]) = strip X"
    by (rule strip_trailing_space) (simp add: is_space_def)
  ultimately show "parse_updates (before @ ''--FILE: src/A.csproj --'' @ [CHR 0x0A] @ X @ [CHR 0x0A] @
                     ''--END FILE--'' @ after) =
        [(''src/A.csproj'', strip X)]"
    by (simp add: block_def)
next
  assume "\<not> contains ''--FILE:'' response"
  then show "parse_updates response = []"
    using parse_updates_render [of "[]" response] by simp
qed

text \<open>
  The amended claim on responses that exist: one with three blocks, the second written
  without any white space around the path or before the end marker, the third for the
  path of the first and with other white space around the path; one with the single
  block of the specification's example, its content between blank lines; and one without
  any block.
\<close>

theorem parse_updates_blocks_witness:
  "parse_updates (render_response
       [(''Here are the files. '', '' '', ''src/A.csproj'', '' '', ''  <Project />'' @ [CHR 0x0A]),
        ([CHR 0x0A], [], ''src/B.csproj'', [], ''<Project>b</Project>''),
        (''Again: '', [CHR 0x0A, CHR '' ''], ''src/A.csproj'', [CHR 0x09],
         [CHR 0x0A] @ ''<Project>a</Project>'' @ [CHR 0x0A])]
       ''Done.'') =
     [(''src/A.csproj'', ''<Project>a</Project>''), (''src/B.csproj'', ''<Project>b</Project>'')] \<and>
   parse_updates (''Result: '' @ ''--FILE: src/A.csproj --'' @ [CHR 0x0A] @
                  ([CHR 0x0A] @ ''X'' @ [CHR 0x0A]) @ [CHR 0x0A] @ ''--END FILE--'' @ '' end'') =
     [(''src/A.csproj'', ''X'')] \<and>
   parse_updates ''I cannot help with that.'' = []"
proof -
  define blocks where "blocks =
       [(''Here are the files. '', '' '', ''src/A.csproj'', '' '', ''  <Project />'' @ [CHR 0x0A]),
        ([CHR 0x0A], [], ''src/B.csproj'', [], ''<Project>b</Project>''),
        (''Again: '', [CHR 0x0A, CHR '' ''], ''src/A.csproj'', [CHR 0x09],
         [CHR 0x0A] @ ''<Project>a</Project>'' @ [CHR 0x0A])]"
  have a1: "list_all well_formed_block blocks \<and> \<not> contains ''--FILE:'' ''Done.''"
    unfolding blocks_def by code_simp
  have a2: "foldl (\<lambda>d (before, ws1, path, ws2, body). dict_set path (strip body) d) [] blocks =
     [(''src/A.csproj'', ''<Project>a</Project>''), (''src/B.csproj'', ''<Project>b</Project>'')]"
    unfolding blocks_def by code_simp
  have b1: "\<not> contains ''--FILE:'' ''Result: '' \<and>
      \<not> contains ''--END FILE--'' ([CHR 0x0A] @ ''X'' @ [CHR 0x0A]) \<and>
      \<not> contains ''--FILE:'' '' end''"
    by code_simp
  have b2: "strip ([CHR 0x0A] @ ''X'' @ [CHR 0x0A]) = ''X''" by code_simp
  have c1: "\<not> contains ''--FILE:'' ''I cannot help with that.''" by code_simp
  have a: "parse_updates (render_response blocks ''Done.'') =
     [(''src/A.csproj'', ''<Project>a</Project>''), (''src/B.csproj'', ''<Project>b</Project>'')]"
    using parse_updates_blocks [where blocks = blocks and last_text = "''Done.''",
        THEN conjunct1, THEN mp, OF a1]
    by (simp only: a2)
  have b: "parse_updates (''Result: '' @ ''--FILE: src/A.csproj --'' @ [CHR 0x0A] @
                  ([CHR 0x0A] @ ''X'' @ [CHR 0x0A]) @ [CHR 0x0A] @ ''--END FILE--'' @ '' end'') =
     [(''src/A.csproj'', ''X'')]"
    using parse_updates_blocks [where before = "''Result: ''" and after = "'' end''"
        and X = "[CHR 0x0A] @ ''X'' @ [CHR 0x0A]",
        THEN conjunct2, THEN conjunct1, THEN mp, OF b1]
    by (simp only: b2)
  have c: "parse_updates ''I cannot help with that.'' = []"
    using parse_updates_blocks [where response = "''I cannot help with that.''",
        THEN conjunct2, THEN conjunct2, THEN mp, OF c1] .
  show ?thesis
    using a b c unfolding blocks_def by (intro conjI)
qed

section \<open>The repackager\<close>

lemma match_at_shorter: "match_at p acc s = Some (gs, r) \<Longrightarrow> length r \<le> length s"
proof (induction p acc s arbitrary: gs r rule: match_at.induct)
  case (1 acc s)
  then show ?case by simp
next
  case (2 l p acc s)
  then show ?case by (fastforce split: if_splits)
next
  case (3 c n g cap p acc)
  then show ?case by simp
next
  case (4 c n g cap p acc x s)
  then show ?case by (fastforce split: if_splits)
next
  case (5 c g cap p acc)
  then show ?case by (auto split: option.splits)
next
  case (6 c cap p acc x s)
  then show ?case by (fastforce split: option.splits if_splits)
next
  case (7 c cap p acc x s)
  then show ?case by (fastforce split: option.splits if_splits)
qed

lemma starts_with_length: "starts_with l s \<Longrightarrow> length l \<le> length s"
  by (induction l s rule: starts_with.induct) simp_all

lemma match_Lit_shorter:
  assumes "match_at (Lit l # p) acc s = Some (gs, r)" and "l \<noteq> []"
  shows "length r < length s"
proof -
  from assms(1) have st: "starts_with l s" and m: "match_at p [] (drop (length l) s) = Some (gs, r)"
    by (simp_all split: if_splits)
  have "length r \<le> length s - length l"
    using match_at_shorter [OF m] by simp
  moreover have "0 < length l" "length l \<le> length s"
    using assms(2) starts_with_length [OF st] by simp_all
  ultimately show ?thesis by linarith
qed

lemma search_Lit_shorter:
  assumes "search (Lit l # p) s = Some (pre, gs, r)" and "l \<noteq> []"
  shows "length r < length s"
  using assms(1)
proof (induction s arbitrary: pre)
  case Nil
  then show ?case using assms(2) by (cases l) (simp_all split: option.splits)
next
  case (Cons c s)
  show ?case
  proof (cases "match_at (Lit l # p) [] (c # s)")
    case None
    with Cons.prems obtain pre' where "search (Lit l # p) s = Some (pre', gs, r)"
      by (auto split: option.splits)
    from Cons.IH [OF this] show ?thesis by simp
  next
    case (Some m)
    obtain gs' r' where m: "m = (gs', r')" by (cases m)
    from Cons.prems Some have "gs' = gs" "r' = r" by (simp_all add: m)
    then show ?thesis
      using match_Lit_shorter [OF Some [unfolded m] assms(2)] by simp
  qed
qed

lemma sub_no_match_here:
  assumes "match_at (Lit l # p) [] (c # s) = None" and "l \<noteq> []"
  shows "re_sub_literal (Lit l # p) repl (c # s) = c # re_sub_literal (Lit l # p) repl s"
proof (cases "search (Lit l # p) s")
  case None
  then have "search (Lit l # p) (c # s) = None"
    using assms(1) by simp
  then have "scan (Lit l # p) (c # s) = ([], c # s)"
    by (subst scan.simps) simp
  moreover have "scan (Lit l # p) s = ([], s)"
    using None by (subst scan.simps) simp
  ultimately show ?thesis by (simp add: re_sub_literal_def)
next
  case (Some m)
  obtain pre gs r where m: "m = (pre, gs, r)" by (cases m)
  have se: "search (Lit l # p) s = Some (pre, gs, r)" using Some m by simp
  have len: "length r < length s" by (rule search_Lit_shorter [OF se assms(2)])
  have se': "search (Lit l # p) (c # s) = Some (c # pre, gs, r)"
    using assms(1) se by simp
  obtain ms rest where sc: "scan (Lit l # p) r = (ms, rest)" by (cases "scan (Lit l # p) r")
  have len': "length r < length (c # s)" using len by simp
  have "scan (Lit l # p) (c # s) = ((c # pre, gs) # ms, rest)"
    by (subst scan.simps) (simp only: se' sc option.case prod.case len' if_True)
  moreover have "scan (Lit l # p) s = ((pre, gs) # ms, rest)"
    by (subst scan.simps) (simp only: se sc option.case prod.case len if_True)
  ultimately show ?thesis by (simp add: re_sub_literal_def)
qed

lemma sub_match_here:
  assumes "match_at (Lit l # p) [] s = Some (gs, r)" and "l \<noteq> []"
  shows "re_sub_literal (Lit l # p) repl s = repl @ re_sub_literal (Lit l # p) repl r"
proof -
  have len: "length r < length s" by (rule match_Lit_shorter [OF assms])
  have se: "search (Lit l # p) s = Some ([], gs, r)"
    using assms(1) by (cases s) simp_all
  obtain ms rest where sc: "scan (Lit l # p) r = (ms, rest)" by (cases "scan (Lit l # p) r")
  have "scan (Lit l # p) s = (([], gs) # ms, rest)"
    by (subst scan.simps) (simp only: se sc option.case prod.case len if_True)
  then show ?thesis by (simp add: re_sub_literal_def sc)
qed

lemma after_on_line_match:
  "match_at [Rep Dot 0 False False, Lit l] acc s = map_option (Pair []) (after_on_line l s)"
proof (induction s arbitrary: acc)
  case Nil
  then show ?case by simp
next
  case (Cons c s)
  then show ?case by simp
qed

lemma target_framework_match:
  "match_at TARGET_FRAMEWORK [] s =
     (if starts_with ''<TargetFramework>'' s
      then map_option (Pair [])
             (after_on_line ''</TargetFramework>'' (drop (length ''<TargetFramework>'') s))
      else None)"
  unfolding TARGET_FRAMEWORK_def
  by (simp only: match_at.simps(2) after_on_line_match)

lemma re_sub_retarget:
  "re_sub_literal TARGET_FRAMEWORK (''<TargetFramework>'' @ target @ ''</TargetFramework>'') s =
     retarget target s"
proof (induction target s rule: retarget.induct)
  case (1 target)
  have "search TARGET_FRAMEWORK [] = None"
    by (simp add: TARGET_FRAMEWORK_def)
  then have "scan TARGET_FRAMEWORK [] = ([], [])"
    by (subst scan.simps) simp
  then show ?case by (simp add: re_sub_literal_def retarget.simps)
next
  case (2 target c s)
  define P where "P = tl TARGET_FRAMEWORK"
  have P: "Lit ''<TargetFramework>'' # P = TARGET_FRAMEWORK"
    by (simp add: P_def TARGET_FRAMEWORK_def)
  have ne: "''<TargetFramework>'' \<noteq> []" by simp
  define repl where "repl = ''<TargetFramework>'' @ target @ ''</TargetFramework>''"
  have skip: "re_sub_literal TARGET_FRAMEWORK repl (c # s) = c # re_sub_literal TARGET_FRAMEWORK repl s"
    if "match_at TARGET_FRAMEWORK [] (c # s) = None"
  proof -
    from that have "match_at (Lit ''<TargetFramework>'' # P) [] (c # s) = None"
      by (simp only: P)
    from sub_no_match_here [OF this ne, of repl] show ?thesis
      by (simp only: P)
  qed
  show ?case
  proof (cases "starts_with ''<TargetFramework>'' (c # s)")
    case False
    then have "match_at TARGET_FRAMEWORK [] (c # s) = None"
      by (simp only: target_framework_match if_False)
    then have "re_sub_literal TARGET_FRAMEWORK repl (c # s) = c # re_sub_literal TARGET_FRAMEWORK repl s"
      by (rule skip)
    moreover have "retarget target (c # s) = c # retarget target s"
      using False by (subst retarget.simps) (simp only: if_False)
    ultimately show ?thesis
      using 2(3) [OF False] by (simp only: repl_def)
  next
    case True
    show ?thesis
    proof (cases "after_on_line ''</TargetFramework>'' (drop (length ''<TargetFramework>'') (c # s))")
      case None
      then have "match_at TARGET_FRAMEWORK [] (c # s) = None"
        using True by (simp only: target_framework_match if_True option.map)
      then have "re_sub_literal TARGET_FRAMEWORK repl (c # s) = c # re_sub_literal TARGET_FRAMEWORK repl s"
        by (rule skip)
      moreover have "retarget target (c # s) = c # retarget target s"
        using True None by (subst retarget.simps) (simp only: if_True option.case)
      ultimately show ?thesis
        using 2(1) [OF True None] by (simp only: repl_def)
    next
      case (Some rest)
      then have "match_at TARGET_FRAMEWORK [] (c # s) = Some ([], rest)"
        using True by (simp only: target_framework_match if_True option.map)
      then have "match_at (Lit ''<TargetFramework>'' # P) [] (c # s) = Some ([], rest)"
        by (simp only: P)
      from sub_match_here [OF this ne, of repl]
      have "re_sub_literal TARGET_FRAMEWORK repl (c # s) = repl @ re_sub_literal TARGET_FRAMEWORK repl rest"
        by (simp only: P)
      moreover have "retarget target (c # s) =
          ''<TargetFramework>'' @ target @ ''</TargetFramework>'' @ retarget target rest"
        using True Some by (subst retarget.simps) (simp only: if_True option.case)
      ultimately show ?thesis
        using 2(2) [OF True Some] by (simp only: repl_def append_assoc)
    qed
  qed
qed

lemma universal_newlines_no_cr: "CHR 0x0D \<notin> set (universal_newlines s)"
  by (induction s rule: universal_newlines.induct) (auto split: list.splits)


lemma traverse_all2: "traverse f xs = Inr ys \<Longrightarrow> list_all2 (\<lambda>x y. f x = Inr y) xs ys"
proof (induction xs arbitrary: ys)
  case Nil
  then show ?case by simp
next
  case (Cons x xs)
  then show ?case
    by (auto split: sum.splits)
qed

lemma traverse_returns: "list_all (\<lambda>x. \<not> isl (f x)) xs \<Longrightarrow> \<not> isl (traverse f xs)"
  by (induction xs) (auto split: sum.splits)

lemma re_sub_target:
  assumes "CHR 0x5C \<notin> set target"
  shows "re_sub e TARGET_FRAMEWORK (target_tag target) s = Inr (retarget target s)"
proof -
  have "CHR 0x5C \<notin> set (target_tag target)"
    using assms by (simp add: target_tag_def)
  then have "re_sub e TARGET_FRAMEWORK (target_tag target) s =
      Inr (re_sub_literal TARGET_FRAMEWORK (target_tag target) s)"
    by (simp only: re_sub_def if_False)
  then show ?thesis
    by (simp only: target_tag_def re_sub_retarget)
qed

lemma zip_entry_member:
  assumes "zip_entry e root updates target r f = Inr (name, data)" and "CHR 0x5C \<notin> set target"
  shows "name = relpath e (path_join r f) root \<and>
         (case dict_get updates name of
            Some new \<Rightarrow> data = encode_utf8 e new
          | None \<Rightarrow>
              if endswith name ''.csproj''
              then (\<exists>bytes text. read_bytes e (path_join r f) = Inr bytes \<and>
                      decode_strict e bytes = Inr text \<and>
                      data = encode_utf8 e (retarget target (universal_newlines text)))
              else read_bytes e (path_join r f) = Inr data)"
  using assms
  by (auto simp add: zip_entry_def open_read_def Let_def re_sub_target
      split: option.splits sum.splits if_splits)

lemma zip_entry_returns:
  assumes "CHR 0x5C \<notin> set target"
    and "dict_get updates (relpath e (path_join r f) root) \<noteq> None \<or>
         (if endswith (relpath e (path_join r f) root) ''.csproj''
          then \<not> isl (open_read e (path_join r f))
          else \<not> isl (read_bytes e (path_join r f)))"
  shows "\<not> isl (zip_entry e root updates target r f)"
  using assms
  by (auto simp add: zip_entry_def Let_def re_sub_target split: option.splits sum.splits if_splits)

lemma sub_one_declaration:
  assumes "\<not> contains ''<TargetFramework>'' pre" and "\<not> contains ''<TargetFramework>'' post"
  shows "re_sub_literal TARGET_FRAMEWORK repl
           (pre @ ''<TargetFramework>net6.0</TargetFramework>'' @ post) = pre @ repl @ post"
proof -
  define orig where "orig = pre @ ''<TargetFramework>'' @ ''net6.0</TargetFramework>'' @ post"
  have "match_at (Lit ''<TargetFramework>'' # tl TARGET_FRAMEWORK) []
      (''<TargetFramework>'' @ ''net6.0</TargetFramework>'' @ post) = Some ([], post)"
    by (simp add: TARGET_FRAMEWORK_def)
  then have "search (Lit ''<TargetFramework>'' # tl TARGET_FRAMEWORK)
      (pre @ ''<TargetFramework>'' @ ''net6.0</TargetFramework>'' @ post) = Some (pre, [], post)"
    using assms(1) by (intro search_skip) simp_all
  then have se: "search TARGET_FRAMEWORK orig = Some (pre, [], post)"
    by (simp add: TARGET_FRAMEWORK_def orig_def)
  have sa: "scan TARGET_FRAMEWORK post = ([], post)"
    using scan_Lit_None [OF assms(2)] by (simp add: TARGET_FRAMEWORK_def)
  have len: "length post < length orig"
    by (simp add: orig_def)
  have "scan TARGET_FRAMEWORK orig = ([(pre, [])], post)"
    by (subst scan.simps) (simp add: se sa len)
  then have "re_sub_literal TARGET_FRAMEWORK repl orig = pre @ repl @ post"
    by (simp add: re_sub_literal_def)
  then show ?thesis
    by (simp add: orig_def)
qed

lemma retarget_one_declaration:
  assumes "\<not> contains ''<TargetFramework>'' pre" and "\<not> contains ''<TargetFramework>'' post"
  shows "retarget target (pre @ ''<TargetFramework>net6.0</TargetFramework>'' @ post) =
           pre @ ''<TargetFramework>'' @ target @ ''</TargetFramework>'' @ post"
  using sub_one_declaration [OF assms, of "''<TargetFramework>'' @ target @ ''</TargetFramework>''"]
  by (simp only: re_sub_retarget append_assoc)

lemma zip_entry_one_declaration:
  assumes "CHR 0x5C \<notin> set target"
    and "dict_get updates (relpath e (path_join r f) root) = None"
    and "endswith (relpath e (path_join r f) root) ''.csproj''"
    and "read_bytes e (path_join r f) = Inr bytes" and "decode_strict e bytes = Inr text"
    and "universal_newlines text = pre @ ''<TargetFramework>net6.0</TargetFramework>'' @ post"
    and "\<not> contains ''<TargetFramework>'' pre" and "\<not> contains ''<TargetFramework>'' post"
  shows "zip_entry e root updates target r f =
           Inr (relpath e (path_join r f) root,
                encode_utf8 e (pre @ ''<TargetFramework>'' @ target @ ''</TargetFramework>'' @ post))"
proof -
  have "open_read e (path_join r f) = Inr (pre @ ''<TargetFramework>net6.0</TargetFramework>'' @ post)"
    using assms(4,5,6) by (simp add: open_read_def)
  moreover have "re_sub e TARGET_FRAMEWORK (target_tag target)
      (pre @ ''<TargetFramework>net6.0</TargetFramework>'' @ post) =
      Inr (pre @ ''<TargetFramework>'' @ target @ ''</TargetFramework>'' @ post)"
    by (simp only: re_sub_target [OF assms(1)] retarget_one_declaration [OF assms(7,8)])
  ultimately show ?thesis
    using assms(2,3) by (simp add: zip_entry_def Let_def)
qed

text \<open>
  Claim C7, as stated, fails. A descriptor is read in text mode,
  \<^verbatim>\<open>orig=open(src).read()\<close>, which turns every \<^verbatim>\<open>\r\n\<close> and every lone \<^verbatim>\<open>\r\<close> into
  \<^verbatim>\<open>\n\<close>, and the text is written back as it then is. For the tree whose one descriptor
  has three lines ending with carriage return and line feed, the second of them
  \<^verbatim>\<open><TargetFramework>net6.0</TargetFramework>\<close>, and with no replacement, the archived
  descriptor declares \<^verbatim>\<open>net8.0\<close> and its lines end with a line feed alone: it is not the
  original with only the declared version replaced.
\<close>

theorem repackage_crlf_descriptor:
  "read_bytes crlf_env ''/proj/App.csproj'' =
     Inr (''<Project>'' @ [CHR 0x0D, CHR 0x0A] @
          ''<TargetFramework>net6.0</TargetFramework>'' @ [CHR 0x0D, CHR 0x0A] @
          ''</Project>'' @ [CHR 0x0D, CHR 0x0A]) \<and>
   create_upgraded_zip crlf_env ''/proj'' [] ''net8.0'' =
     Inr (''/tmp/AI_Upgraded_net8.0.zip'',
          [(''App.csproj'',
            ''<Project>'' @ [CHR 0x0A] @
            ''<TargetFramework>net8.0</TargetFramework>'' @ [CHR 0x0A] @
            ''</Project>'' @ [CHR 0x0A]),
           (''NuGet.Config'', example_config),
           (''README.md'', ''hello'')]) \<and>
   ''<Project>'' @ [CHR 0x0A] @
   ''<TargetFramework>net8.0</TargetFramework>'' @ [CHR 0x0A] @
   ''</Project>'' @ [CHR 0x0A] \<noteq>
   ''<Project>'' @ [CHR 0x0D, CHR 0x0A] @
   ''<TargetFramework>net8.0</TargetFramework>'' @ [CHR 0x0D, CHR 0x0A] @
   ''</Project>'' @ [CHR 0x0D, CHR 0x0A]"
  by code_simp

text \<open>
  Claim C7, amended. The target version holds no backslash (the form offers
  \<^verbatim>\<open>net6.0\<close>, \<^verbatim>\<open>net7.0\<close>, \<^verbatim>\<open>net8.0\<close> and \<^verbatim>\<open>net9.0-preview\<close>). When the repackager returns,
  the archive is the file \<^verbatim>\<open>AI_Upgraded_<target>.zip\<close> of the temporary directory and has
  one member for each file of the tree, in walk order, named by the path of the file
  relative to the root, and holding: the replacement content, encoded, when the relative
  path is a key of \<open>file_updates\<close>; otherwise, for a file whose name ends with
  \<^verbatim>\<open>.csproj\<close>, the encoded text obtained from the text of the file, decoded and with its
  line ends turned into line feeds, by replacing each
  \<^verbatim>\<open><TargetFramework>\<close> ... \<^verbatim>\<open></TargetFramework>\<close> that lies on one line by
  \<^verbatim>\<open><TargetFramework>\<close>, the target version and \<^verbatim>\<open></TargetFramework>\<close> (a declaration spread
  over several lines is left as it is); otherwise the bytes of the file. In particular a
  descriptor that is not a key of \<open>file_updates\<close> and whose text, so read, is \<open>pre\<close>,
  \<^verbatim>\<open><TargetFramework>net6.0</TargetFramework>\<close>, \<open>post\<close>, with no other opening tag, is
  archived as \<open>pre\<close>, \<^verbatim>\<open><TargetFramework>\<close>, the target version, \<^verbatim>\<open></TargetFramework>\<close>,
  \<open>post\<close>. A text read from a descriptor holds no carriage return. When the archive
  cannot be created the repackager raises that error; when it can and every file that has
  no replacement can be read (a descriptor also decoded), the repackager returns.
\<close>

theorem repackage_members:
  assumes "CHR 0x5C \<notin> set target"
  shows
    "(create_upgraded_zip e root updates target = Inr (zpath, members) \<longrightarrow>
        zpath = path_join (gettempdir e) (''AI_Upgraded_'' @ target @ ''.zip'') \<and>
        list_all2
          (\<lambda>(r, f) (name, data).
             name = relpath e (path_join r f) root \<and>
             (case dict_get updates name of
                Some new \<Rightarrow> data = encode_utf8 e new
              | None \<Rightarrow>
                  if endswith name ''.csproj''
                  then (\<exists>bytes text. read_bytes e (path_join r f) = Inr bytes \<and>
                          decode_strict e bytes = Inr text \<and>
                          data = encode_utf8 e (retarget target (universal_newlines text)))
                  else read_bytes e (path_join r f) = Inr data))
          (tree_files e root) members) \<and>
     (dict_get updates (relpath e (path_join r f) root) = None \<and>
      endswith (relpath e (path_join r f) root) ''.csproj'' \<and>
      read_bytes e (path_join r f) = Inr bytes \<and> decode_strict e bytes = Inr decoded \<and>
      universal_newlines decoded = pre @ ''<TargetFramework>net6.0</TargetFramework>'' @ post \<and>
      \<not> contains ''<TargetFramework>'' pre \<and> \<not> contains ''<TargetFramework>'' post \<longrightarrow>
        zip_entry e root updates target r f =
          Inr (relpath e (path_join r f) root,
               encode_utf8 e (pre @ ''<TargetFramework>'' @ target @ ''</TargetFramework>'' @ post))) \<and>
     CHR 0x0D \<notin> set (universal_newlines decoded) \<and>
     (open_archive e (path_join (gettempdir e) (''AI_Upgraded_'' @ target @ ''.zip'')) = Some ex \<longrightarrow>
        create_upgraded_zip e root updates target = Inl ex) \<and>
     (open_archive e (path_join (gettempdir e) (''AI_Upgraded_'' @ target @ ''.zip'')) = None \<and>
      list_all
        (\<lambda>(r, f). dict_get updates (relpath e (path_join r f) root) \<noteq> None \<or>
           (if endswith (relpath e (path_join r f) root) ''.csproj''
            then \<not> isl (open_read e (path_join r f))
            else \<not> isl (read_bytes e (path_join r f))))
        (tree_files e root) \<longrightarrow>
        \<not> isl (create_upgraded_zip e root updates target))"
proof (intro conjI impI)
  assume a: "create_upgraded_zip e root updates target = Inr (zpath, members)"
  then show "zpath = path_join (gettempdir e) (''AI_Upgraded_'' @ target @ ''.zip'')"
    by (auto simp add: create_upgraded_zip_def Let_def split: option.splits sum.splits)
  from a have tr: "traverse (\<lambda>(r, f). zip_entry e root updates target r f) (tree_files e root) = Inr members"
    by (auto simp add: create_upgraded_zip_def Let_def split: option.splits sum.splits)
  have "list_all2 (\<lambda>x y. (case x of (r, f) \<Rightarrow> zip_entry e root updates target r f) = Inr y)
      (tree_files e root) members"
    using traverse_all2 [OF tr] .
  then show "list_all2
          (\<lambda>(r, f) (name, data).
             name = relpath e (path_join r f) root \<and>
             (case dict_get updates name of
                Some new \<Rightarrow> data = encode_utf8 e new
              | None \<Rightarrow>
                  if endswith name ''.csproj''
                  then (\<exists>bytes text. read_bytes e (path_join r f) = Inr bytes \<and>
                          decode_strict e bytes = Inr text \<and>
                          data = encode_utf8 e (retarget target (universal_newlines text)))
                  else read_bytes e (path_join r f) = Inr data))
          (tree_files e root) members"
  proof (rule list_all2_mono)
    fix x y
    assume b: "(case x of (r, f) \<Rightarrow> zip_entry e root updates target r f) = Inr y"
    obtain r f where x: "x = (r, f)" by (cases x)
    obtain name data where y: "y = (name, data)" by (cases y)
    from b have "zip_entry e root updates target r f = Inr (name, data)"
      by (simp add: x y)
    from zip_entry_member [OF this assms]
    show "(case x of (r, f) \<Rightarrow> \<lambda>(name, data).
             name = relpath e (path_join r f) root \<and>
             (case dict_get updates name of
                Some new \<Rightarrow> data = encode_utf8 e new
              | None \<Rightarrow>
                  if endswith name ''.csproj''
                  then (\<exists>bytes text. read_bytes e (path_join r f) = Inr bytes \<and>
                          decode_strict e bytes = Inr text \<and>
                          data = encode_utf8 e (retarget target (universal_newlines text)))
                  else read_bytes e (path_join r f) = Inr data)) y"
      by (auto simp add: x y split: option.splits)
  qed
next
  assume "dict_get updates (relpath e (path_join r f) root) = None \<and>
      endswith (relpath e (path_join r f) root) ''.csproj'' \<and>
      read_bytes e (path_join r f) = Inr bytes \<and> decode_strict e bytes = Inr decoded \<and>
      universal_newlines decoded = pre @ ''<TargetFramework>net6.0</TargetFramework>'' @ post \<and>
      \<not> contains ''<TargetFramework>'' pre \<and> \<not> contains ''<TargetFramework>'' post"
  then show "zip_entry e root updates target r f =
          Inr (relpath e (path_join r f) root,
               encode_utf8 e (pre @ ''<TargetFramework>'' @ target @ ''</TargetFramework>'' @ post))"
    by (intro zip_entry_one_declaration [OF assms]) blast+
next
  show "CHR 0x0D \<notin> set (universal_newlines decoded)"
    by (rule universal_newlines_no_cr)
next
  assume "open_archive e (path_join (gettempdir e) (''AI_Upgraded_'' @ target @ ''.zip'')) = Some ex"
  then show "create_upgraded_zip e root updates target = Inl ex"
    by (simp add: create_upgraded_zip_def Let_def)
next
  assume c: "open_archive e (path_join (gettempdir e) (''AI_Upgraded_'' @ target @ ''.zip'')) = None \<and>
      list_all
        (\<lambda>(r, f). dict_get updates (relpath e (path_join r f) root) \<noteq> None \<or>
           (if endswith (relpath e (path_join r f) root) ''.csproj''
            then \<not> isl (open_read e (path_join r f))
            else \<not> isl (read_bytes e (path_join r f))))
        (tree_files e root)"
  then have "list_all (\<lambda>x. \<not> isl (case x of (r, f) \<Rightarrow> zip_entry e root updates target r f))
      (tree_files e root)"
    unfolding list_all_iff using zip_entry_returns [OF assms] by fastforce
  from traverse_returns [OF this] c show "\<not> isl (create_upgraded_zip e root updates target)"
    by (auto simp add: create_upgraded_zip_def Let_def split: sum.splits)
qed


text \<open>
  The amended claim on trees that exist: the example tree repackaged for \<^verbatim>\<open>net8.0\<close>
  with a replacement for the text file; the descriptor whose lines end with carriage
  return and line feed; the target \<^verbatim>\<open>pre/net8.0\<close>, for which the archive would lie in a
  directory that does not exist; and the descriptor whose declaration is spread over
  three lines, which is archived as it is.
\<close>

theorem repackage_members_witness:
  "create_upgraded_zip example_env ''/proj'' [(''README.md'', ''upgraded'')] ''net8.0'' =
     Inr (''/tmp/AI_Upgraded_net8.0.zip'',
          [(''App.csproj'',
            ''<Project><TargetFramework>net8.0</TargetFramework>'' @ example_references),
           (''NuGet.Config'', example_config),
           (''README.md'', ''upgraded'')]) \<and>
   list_all2
     (\<lambda>(r, f) (name, data).
        name = relpath example_env (path_join r f) ''/proj'' \<and>
        (case dict_get [(''README.md'', ''upgraded'')] name of
           Some new \<Rightarrow> data = encode_utf8 example_env new
         | None \<Rightarrow>
             if endswith name ''.csproj''
             then (\<exists>bytes text. read_bytes example_env (path_join r f) = Inr bytes \<and>
                     decode_strict example_env bytes = Inr text \<and>
                     data = encode_utf8 example_env (retarget ''net8.0'' (universal_newlines text)))
             else read_bytes example_env (path_join r f) = Inr data))
     (tree_files example_env ''/proj'')
     [(''App.csproj'',
       ''<Project><TargetFramework>net8.0</TargetFramework>'' @ example_references),
      (''NuGet.Config'', example_config),
      (''README.md'', ''upgraded'')] \<and>
   zip_entry crlf_env ''/proj'' [] ''net8.0'' ''/proj'' ''App.csproj'' =
     Inr (''App.csproj'',
          ''<Project>'' @ [CHR 0x0A] @
          ''<TargetFramework>net8.0</TargetFramework>'' @ [CHR 0x0A] @
          ''</Project>'' @ [CHR 0x0A]) \<and>
   CHR 0x0D \<notin> set (universal_newlines crlf_csproj) \<and>
   create_upgraded_zip flat_tmp_env ''/proj'' [] ''pre/net8.0'' = Inl OSError \<and>
   \<not> isl (create_upgraded_zip example_env ''/proj'' [(''README.md'', ''upgraded'')] ''net8.0'') \<and>
   create_upgraded_zip split_env ''/proj'' [] ''net8.0'' =
     Inr (''/tmp/AI_Upgraded_net8.0.zip'',
          [(''App.csproj'',
            ''<Project><TargetFramework>'' @ [CHR 0x0A] @ ''net6.0'' @ [CHR 0x0A] @
            ''</TargetFramework></Project>''),
           (''NuGet.Config'', example_config),
           (''README.md'', ''hello'')])"
proof -
  let ?pre = "''<Project>'' @ [CHR 0x0A]"
  let ?post = "[CHR 0x0A] @ ''</Project>'' @ [CHR 0x0A]"
  have h0: "CHR 0x5C \<notin> set ''net8.0''" by simp
  have h0': "CHR 0x5C \<notin> set ''pre/net8.0''" by simp
  have h1: "create_upgraded_zip example_env ''/proj'' [(''README.md'', ''upgraded'')] ''net8.0'' =
     Inr (''/tmp/AI_Upgraded_net8.0.zip'',
          [(''App.csproj'',
            ''<Project><TargetFramework>net8.0</TargetFramework>'' @ example_references),
           (''NuGet.Config'', example_config),
           (''README.md'', ''upgraded'')])"
    by code_simp
  have h2: "dict_get [] (relpath crlf_env (path_join ''/proj'' ''App.csproj'') ''/proj'') = None \<and>
      endswith (relpath crlf_env (path_join ''/proj'' ''App.csproj'') ''/proj'') ''.csproj'' \<and>
      read_bytes crlf_env (path_join ''/proj'' ''App.csproj'') = Inr crlf_csproj \<and>
      decode_strict crlf_env crlf_csproj = Inr crlf_csproj \<and>
      universal_newlines crlf_csproj = ?pre @ ''<TargetFramework>net6.0</TargetFramework>'' @ ?post \<and>
      \<not> contains ''<TargetFramework>'' ?pre \<and> \<not> contains ''<TargetFramework>'' ?post"
    by code_simp
  have e2: "Inr (relpath crlf_env (path_join ''/proj'' ''App.csproj'') ''/proj'',
        encode_utf8 crlf_env (?pre @ ''<TargetFramework>'' @ ''net8.0'' @ ''</TargetFramework>'' @ ?post)) =
      (Inr (''App.csproj'',
          ''<Project>'' @ [CHR 0x0A] @
          ''<TargetFramework>net8.0</TargetFramework>'' @ [CHR 0x0A] @
          ''</Project>'' @ [CHR 0x0A]) :: py_exn + string \<times> string)"
    by code_simp
  have h4: "open_archive flat_tmp_env
      (path_join (gettempdir flat_tmp_env) (''AI_Upgraded_'' @ ''pre/net8.0'' @ ''.zip'')) = Some OSError"
    by code_simp
  have h5: "open_archive example_env
      (path_join (gettempdir example_env) (''AI_Upgraded_'' @ ''net8.0'' @ ''.zip'')) = None \<and>
      list_all
        (\<lambda>(r, f). dict_get [(''README.md'', ''upgraded'')]
              (relpath example_env (path_join r f) ''/proj'') \<noteq> None \<or>
           (if endswith (relpath example_env (path_join r f) ''/proj'') ''.csproj''
            then \<not> isl (open_read example_env (path_join r f))
            else \<not> isl (read_bytes example_env (path_join r f))))
        (tree_files example_env ''/proj'')"
    by code_simp
  have h6: "create_upgraded_zip split_env ''/proj'' [] ''net8.0'' =
     Inr (''/tmp/AI_Upgraded_net8.0.zip'',
          [(''App.csproj'',
            ''<Project><TargetFramework>'' @ [CHR 0x0A] @ ''net6.0'' @ [CHR 0x0A] @
            ''</TargetFramework></Project>''),
           (''NuGet.Config'', example_config),
           (''README.md'', ''hello'')])"
    by code_simp
  note c1 = repackage_members [where e = example_env and root = "''/proj''"
      and updates = "[(''README.md'', ''upgraded'')]" and target = "''net8.0''"
      and zpath = "''/tmp/AI_Upgraded_net8.0.zip''"
      and members = "[(''App.csproj'',
            ''<Project><TargetFramework>net8.0</TargetFramework>'' @ example_references),
           (''NuGet.Config'', example_config),
           (''README.md'', ''upgraded'')]",
      OF h0, THEN conjunct1, THEN mp, OF h1, THEN conjunct2]
  have c2: "zip_entry crlf_env ''/proj'' [] ''net8.0'' ''/proj'' ''App.csproj'' =
     Inr (''App.csproj'',
          ''<Project>'' @ [CHR 0x0A] @
          ''<TargetFramework>net8.0</TargetFramework>'' @ [CHR 0x0A] @
          ''</Project>'' @ [CHR 0x0A])"
    using repackage_members [where e = crlf_env and root = "''/proj''" and updates = "[]"
      and target = "''net8.0''" and r = "''/proj''" and f = "''App.csproj''"
      and bytes = crlf_csproj and decoded = crlf_csproj and pre = ?pre and post = ?post,
      OF h0, THEN conjunct2, THEN conjunct1, THEN mp, OF h2]
    by (simp only: e2)
  note c3 = repackage_members [where target = "''net8.0''" and decoded = crlf_csproj,
      OF h0, THEN conjunct2, THEN conjunct2, THEN conjunct1]
  note c4 = repackage_members [where e = flat_tmp_env and root = "''/proj''" and updates = "[]"
      and target = "''pre/net8.0''" and ex = OSError,
      OF h0', THEN conjunct2, THEN conjunct2, THEN conjunct2, THEN conjunct1, THEN mp, OF h4]
  note c5 = repackage_members [where e = example_env and root = "''/proj''"
      and updates = "[(''README.md'', ''upgraded'')]" and target = "''net8.0''",
      OF h0, THEN conjunct2, THEN conjunct2, THEN conjunct2, THEN conjunct2, THEN mp, OF h5]
  show ?thesis
    by (intro conjI h1 c1 c2 c3 c4 c5 h6)
qed

end
